theory Spec2Isabelle
  imports Main "HOL-Library.Word" "HOL-Library.Sublist"
begin

section \<open>JavaScript strings\<close>

text \<open>
  A JavaScript string is a sequence of UTF-16 code units. String literals of the
  source are written \<open>js ''...''\<close>.
\<close>

text \<open>
  The code units written as numbers: \<open>0x2F\<close> is \<open>/\<close>, \<open>0x5C\<close> the backslash,
  \<open>0x7B\<close> and \<open>0x7D\<close> the braces, \<open>0x5B\<close> and \<open>0x5D\<close> the square brackets,
  \<open>0x22\<close> and \<open>0x27\<close> the double and the single quote, \<open>0x20\<close> the space,
  \<open>0x0A\<close> the line feed, \<open>0x3D\<close> the equals sign, \<open>0x2713\<close> the check mark.
\<close>

type_synonym code_unit = "16 word"
type_synonym jsstring = "code_unit list"

definition js :: "string \<Rightarrow> jsstring" where
  "js s = map of_char s"

text \<open>
  The code units removed by \<open>String.prototype.trim\<close> and matched by \<open>\s\<close>:
  ECMAScript's WhiteSpace (TAB, VT, FF, SP, NBSP, ZWNBSP and the Unicode space
  separators) and LineTerminator (LF, CR, LS, PS).
\<close>

definition isWhiteSpace :: "code_unit \<Rightarrow> bool" where
  "isWhiteSpace c =
     (c \<in> {0x09, 0x0A, 0x0B, 0x0C, 0x0D, 0x20, 0xA0, 0x1680, 0x2028, 0x2029,
            0x202F, 0x205F, 0x3000, 0xFEFF}
      \<or> (0x2000 \<le> c \<and> c \<le> 0x200A))"

definition trimStart :: "jsstring \<Rightarrow> jsstring" where
  "trimStart s = dropWhile isWhiteSpace s"

definition trimEnd :: "jsstring \<Rightarrow> jsstring" where
  "trimEnd s = rev (dropWhile isWhiteSpace (rev s))"

definition trim :: "jsstring \<Rightarrow> jsstring" where
  "trim s = trimEnd (trimStart s)"

definition startsWith :: "jsstring \<Rightarrow> jsstring \<Rightarrow> bool" where
  "startsWith s p = (take (length p) s = p)"

definition endsWith :: "jsstring \<Rightarrow> jsstring \<Rightarrow> bool" where
  "endsWith s p = (length p \<le> length s \<and> drop (length s - length p) s = p)"

text \<open>\<open>s.replace(/\\/g, '/')\<close> and its like: every occurrence of one code unit
  replaced by another.\<close>

definition replaceAll :: "code_unit \<Rightarrow> code_unit \<Rightarrow> jsstring \<Rightarrow> jsstring" where
  "replaceAll a b s = map (\<lambda>c. if c = a then b else c) s"

text \<open>\<open>s.split(sep)\<close> for a one-unit separator: the empty string splits into
  one empty piece, and a leading, trailing or doubled separator yields an empty
  piece.\<close>

fun splitOn :: "code_unit \<Rightarrow> jsstring \<Rightarrow> jsstring list" where
  "splitOn sep [] = [[]]"
| "splitOn sep (c # cs) =
     (if c = sep then [] # splitOn sep cs
      else (case splitOn sep cs of
              [] \<Rightarrow> [[c]]
            | p # ps \<Rightarrow> (c # p) # ps))"

text \<open>\<open>parts.join(sep)\<close>.\<close>

fun joinWith :: "jsstring \<Rightarrow> jsstring list \<Rightarrow> jsstring" where
  "joinWith sep [] = []"
| "joinWith sep [p] = p"
| "joinWith sep (p # q # ps) = p @ sep @ joinWith sep (q # ps)"

text \<open>\<open>parts.filter(Boolean)\<close> on strings keeps the non-empty ones.\<close>

definition filterBoolean :: "jsstring list \<Rightarrow> jsstring list" where
  "filterBoolean parts = filter (\<lambda>p. p \<noteq> []) parts"

section \<open>Group paths\<close>

text \<open>
  The functions below take strings; \<open>(value || '')\<close> in the source sends \<open>null\<close>
  and \<open>undefined\<close> to the empty string first.
\<close>

record group_path =
  normalized :: jsstring
  leadingSlash :: bool

definition normalizeGroupPath :: "jsstring \<Rightarrow> group_path" where
  "normalizeGroupPath v =
     (let trimmed = trim v;
          leading = startsWith trimmed (js ''/'');
          norm = joinWith (js ''/'')
                   (filterBoolean (splitOn 0x2F (replaceAll 0x5C 0x2F trimmed)))
      in \<lparr> normalized = norm, leadingSlash = leading \<rparr>)"

definition splitGroupPath :: "jsstring \<Rightarrow> jsstring list" where
  "splitGroupPath v =
     (let norm = normalized (normalizeGroupPath v)
      in if norm = [] then [] else splitOn 0x2F norm)"

definition isSafeGroupParts :: "jsstring list \<Rightarrow> bool" where
  "isSafeGroupParts parts =
     list_all (\<lambda>part. part \<noteq> [] \<and> part \<noteq> js ''.'' \<and> part \<noteq> js ''..'') parts"


text \<open>
  \<open>path.join\<close> is Node's, not this repository's: \<open>resolveLocalGroupDir\<close> takes it
  as the parameter \<open>pathJoin\<close> (first argument and the spread rest).
\<close>

definition resolveLocalGroupDir ::
  "(jsstring \<Rightarrow> jsstring list \<Rightarrow> jsstring) \<Rightarrow> jsstring \<Rightarrow> jsstring \<Rightarrow> jsstring \<Rightarrow> jsstring" where
  "resolveLocalGroupDir pathJoin workspaceFolder baseGroupName fullGroupName =
     (let baseParts = splitGroupPath baseGroupName;
          fullParts = splitGroupPath fullGroupName;
          relParts =
            (if length baseParts > 0
                \<and> joinWith (js ''/'') (take (length baseParts) fullParts)
                    = joinWith (js ''/'') baseParts
             then drop (length baseParts) fullParts
             else fullParts)
      in if length relParts = 0 then workspaceFolder
         else pathJoin workspaceFolder relParts)"

text \<open>The segments kept by \<open>normalizeGroupPath\<close>.\<close>

definition segmentsOf :: "jsstring \<Rightarrow> jsstring list" where
  "segmentsOf v = filterBoolean (splitOn 0x2F (replaceAll 0x5C 0x2F (trim v)))"

section \<open>Node's \<open>path.join\<close> on POSIX\<close>

text \<open>
  \<open>path.join\<close> belongs to Node's standard library. The functions of the extension
  take it as a parameter; \<open>posixJoin\<close> is a model of \<open>path.posix.join\<close> (join the
  non-empty arguments with \<open>/\<close>, then normalize: drop empty and \<open>.\<close> segments,
  resolve \<open>..\<close> against the segment before it), used where a concrete path is
  computed.
\<close>

fun resolveDots :: "bool \<Rightarrow> jsstring list \<Rightarrow> jsstring list \<Rightarrow> jsstring list" where
  "resolveDots allowAboveRoot stack [] = rev stack"
| "resolveDots allowAboveRoot stack (s # ss) =
     (if s = [] \<or> s = js ''.'' then resolveDots allowAboveRoot stack ss
      else if s = js ''..'' then
        (case stack of
           t # ts \<Rightarrow>
             if t \<noteq> js ''..'' then resolveDots allowAboveRoot ts ss
             else if allowAboveRoot then resolveDots allowAboveRoot (s # stack) ss
             else resolveDots allowAboveRoot stack ss
         | [] \<Rightarrow>
             if allowAboveRoot then resolveDots allowAboveRoot [s] ss
             else resolveDots allowAboveRoot stack ss)
      else resolveDots allowAboveRoot (s # stack) ss)"

definition posixNormalize :: "jsstring \<Rightarrow> jsstring" where
  "posixNormalize p =
     (if p = [] then js ''.''
      else
        (let isAbsolute = startsWith p (js ''/'');
             trailingSeparator = endsWith p (js ''/'');
             body = joinWith (js ''/'') (resolveDots (\<not> isAbsolute) [] (splitOn 0x2F p))
         in if body = [] then
              (if isAbsolute then js ''/''
               else if trailingSeparator then js ''./'' else js ''.'')
            else
              (if isAbsolute then js ''/'' else [])
                @ body @ (if trailingSeparator then js ''/'' else [])))"

definition posixJoin :: "jsstring \<Rightarrow> jsstring list \<Rightarrow> jsstring" where
  "posixJoin first rest =
     (let args = filter (\<lambda>a. a \<noteq> []) (first # rest)
      in if args = [] then js ''.'' else posixNormalize (joinWith (js ''/'') args))"

section \<open>Output Interpreter\<close>

text \<open>
  \<open>s.indexOf(c)\<close> and \<open>s.lastIndexOf(c)\<close> for a one-unit search string: the index
  of the first (last) occurrence, \<open>-1\<close> when there is none.
\<close>

fun indexOf :: "jsstring \<Rightarrow> code_unit \<Rightarrow> int" where
  "indexOf [] c = -1"
| "indexOf (x # xs) c =
     (if x = c then 0
      else (let i = indexOf xs c in if i = -1 then -1 else i + 1))"

definition lastIndexOf :: "jsstring \<Rightarrow> code_unit \<Rightarrow> int" where
  "lastIndexOf s c =
     (let i = indexOf (rev s) c
      in if i = -1 then -1 else int (length s) - 1 - i)"

text \<open>\<open>s.slice(first, stop)\<close> for indices that are not negative.\<close>

definition sliceJS :: "jsstring \<Rightarrow> int \<Rightarrow> int \<Rightarrow> jsstring" where
  "sliceJS s first stop = take (nat stop - nat first) (drop (nat first) s)"

text \<open>
  The errors \<open>parseJsonFromCommandOutput\<close> can throw: its own two \<open>Error\<close>s
  (empty output, no JSON found) and the \<open>SyntaxError\<close> of \<open>JSON.parse\<close>.
\<close>

datatype js_error = EmptyOutput | SyntaxError | NoJsonFound

text \<open>
  \<open>JSON.parse\<close> is the engine's: the function takes it as the parameter \<open>parse\<close>,
  \<open>None\<close> standing for a thrown \<open>SyntaxError\<close>.
\<close>

definition jsonParse :: "(jsstring \<Rightarrow> 'v option) \<Rightarrow> jsstring \<Rightarrow> js_error + 'v" where
  "jsonParse parse s = (case parse s of None \<Rightarrow> Inl SyntaxError | Some v \<Rightarrow> Inr v)"

definition parseJsonFromCommandOutput ::
  "(jsstring \<Rightarrow> 'v option) \<Rightarrow> jsstring \<Rightarrow> js_error + 'v" where
  "parseJsonFromCommandOutput parse output =
     (let trimmed = trim output in
      if trimmed = [] then Inl EmptyOutput
      else if (startsWith trimmed (js ''{'') \<and> endsWith trimmed (js ''}''))
              \<or> (startsWith trimmed (js ''['') \<and> endsWith trimmed (js '']''))
      then jsonParse parse trimmed
      else
        (let startObj = indexOf trimmed 0x7B;
             endObj = lastIndexOf trimmed 0x7D in
         if startObj \<noteq> -1 \<and> endObj \<noteq> -1 \<and> endObj > startObj
         then jsonParse parse (sliceJS trimmed startObj (endObj + 1))
         else
           (let startArr = indexOf trimmed 0x5B;
                endArr = lastIndexOf trimmed 0x5D in
            if startArr \<noteq> -1 \<and> endArr \<noteq> -1 \<and> endArr > startArr
            then jsonParse parse (sliceJS trimmed startArr (endArr + 1))
            else Inl NoJsonFound)))"

section \<open>A model of \<open>JSON.parse\<close>\<close>

text \<open>
  A reader of the JSON grammar (ECMA-404), for evaluating the Output Interpreter
  on concrete texts. A number is kept as its token, an object as the list of its
  members in the order written. The recursion is bounded by a counter that
  \<open>JSON_parse\<close> starts at twice the length of the text plus two: of two
  nested calls, one consumes a code unit.
\<close>

datatype json =
    JNull
  | JBool bool
  | JNumber jsstring
  | JString jsstring
  | JArray "json list"
  | JObject "(jsstring \<times> json) list"

definition isJsonSpace :: "code_unit \<Rightarrow> bool" where
  "isJsonSpace c = (c = 0x20 \<or> c = 0x09 \<or> c = 0x0A \<or> c = 0x0D)"

definition skipSpace :: "jsstring \<Rightarrow> jsstring" where
  "skipSpace s = dropWhile isJsonSpace s"

definition isDigit :: "code_unit \<Rightarrow> bool" where
  "isDigit c = (0x30 \<le> c \<and> c \<le> 0x39)"

definition hexValue :: "code_unit \<Rightarrow> code_unit option" where
  "hexValue c =
     (if 0x30 \<le> c \<and> c \<le> 0x39 then Some (c - 0x30)
      else if 0x41 \<le> c \<and> c \<le> 0x46 then Some (c - 0x41 + 10)
      else if 0x61 \<le> c \<and> c \<le> 0x66 then Some (c - 0x61 + 10)
      else None)"

definition simpleEscape :: "code_unit \<Rightarrow> code_unit option" where
  "simpleEscape e =
     (if e = 0x22 \<or> e = 0x5C \<or> e = 0x2F then Some e
      else if e = 0x62 then Some 0x08
      else if e = 0x66 then Some 0x0C
      else if e = 0x6E then Some 0x0A
      else if e = 0x72 then Some 0x0D
      else if e = 0x74 then Some 0x09
      else None)"

text \<open>The rest of a string token after its opening quote, escapes decoded.\<close>

fun parseStringBody :: "jsstring \<Rightarrow> jsstring \<Rightarrow> (jsstring \<times> jsstring) option" where
  "parseStringBody acc [] = None"
| "parseStringBody acc [c] = (if c = 0x22 then Some (rev acc, []) else None)"
| "parseStringBody acc (c # e # cs) =
     (if c = 0x22 then Some (rev acc, e # cs)
      else if c = 0x5C then
        (if e = 0x75 then
           (case cs of
              h1 # h2 # h3 # h4 # rest \<Rightarrow>
                (case (hexValue h1, hexValue h2, hexValue h3, hexValue h4) of
                   (Some a, Some b, Some c', Some d) \<Rightarrow>
                     parseStringBody ((a * 0x1000 + b * 0x100 + c' * 0x10 + d) # acc) rest
                 | _ \<Rightarrow> None)
            | _ \<Rightarrow> None)
         else
           (case simpleEscape e of
              Some u \<Rightarrow> parseStringBody (u # acc) cs
            | None \<Rightarrow> None))
      else if c < 0x20 then None
      else parseStringBody (c # acc) (e # cs))"

text \<open>A number token: \<open>-? (0 | [1-9][0-9]*) (. [0-9]+)? ([eE] [+-]? [0-9]+)?\<close>.\<close>

definition optionalUnit :: "(code_unit \<Rightarrow> bool) \<Rightarrow> jsstring \<Rightarrow> jsstring \<times> jsstring" where
  "optionalUnit P s = (case s of [] \<Rightarrow> ([], s) | c # cs \<Rightarrow> if P c then ([c], cs) else ([], s))"

definition intPart :: "jsstring \<Rightarrow> (jsstring \<times> jsstring) option" where
  "intPart s =
     (case s of
        [] \<Rightarrow> None
      | d # r \<Rightarrow>
          if d = 0x30 then Some ([d], r)
          else if isDigit d then Some (d # takeWhile isDigit r, dropWhile isDigit r)
          else None)"

definition fracPart :: "jsstring \<Rightarrow> (jsstring \<times> jsstring) option" where
  "fracPart s =
     (case s of
        [] \<Rightarrow> Some ([], s)
      | c # r \<Rightarrow>
          if c \<noteq> 0x2E then Some ([], s)
          else if takeWhile isDigit r = [] then None
          else Some (c # takeWhile isDigit r, dropWhile isDigit r))"

definition expPart :: "jsstring \<Rightarrow> (jsstring \<times> jsstring) option" where
  "expPart s =
     (case s of
        [] \<Rightarrow> Some ([], s)
      | c # r \<Rightarrow>
          if c \<noteq> 0x65 \<and> c \<noteq> 0x45 then Some ([], s)
          else
            (case optionalUnit (\<lambda>x. x = 0x2B \<or> x = 0x2D) r of
               (sg, r') \<Rightarrow>
                 if takeWhile isDigit r' = [] then None
                 else Some (c # sg @ takeWhile isDigit r', dropWhile isDigit r')))"

definition parseNumber :: "jsstring \<Rightarrow> (jsstring \<times> jsstring) option" where
  "parseNumber s =
     (case optionalUnit (\<lambda>x. x = 0x2D) s of
        (sign, r0) \<Rightarrow>
          (case intPart r0 of
             None \<Rightarrow> None
           | Some (ds, r1) \<Rightarrow>
               (case fracPart r1 of
                  None \<Rightarrow> None
                | Some (fs, r2) \<Rightarrow>
                    (case expPart r2 of
                       None \<Rightarrow> None
                     | Some (es, r3) \<Rightarrow> Some (sign @ ds @ fs @ es, r3)))))"

fun parseValue :: "nat \<Rightarrow> jsstring \<Rightarrow> (json \<times> jsstring) option"
  and parseElements :: "nat \<Rightarrow> json list \<Rightarrow> jsstring \<Rightarrow> (json \<times> jsstring) option"
  and parseMembers :: "nat \<Rightarrow> (jsstring \<times> json) list \<Rightarrow> jsstring \<Rightarrow> (json \<times> jsstring) option"
where
  "parseValue 0 s = None"
| "parseValue (Suc n) s =
     (case skipSpace s of
        [] \<Rightarrow> None
      | c # cs \<Rightarrow>
          if c = 0x7B then
            (case skipSpace cs of
               [] \<Rightarrow> None
             | d # r \<Rightarrow> if d = 0x7D then Some (JObject [], r) else parseMembers n [] cs)
          else if c = 0x5B then
            (case skipSpace cs of
               [] \<Rightarrow> None
             | d # r \<Rightarrow> if d = 0x5D then Some (JArray [], r) else parseElements n [] cs)
          else if c = 0x22 then
            (case parseStringBody [] cs of
               None \<Rightarrow> None
             | Some (str, r) \<Rightarrow> Some (JString str, r))
          else if startsWith (c # cs) (js ''null'') then Some (JNull, drop 4 (c # cs))
          else if startsWith (c # cs) (js ''true'') then Some (JBool True, drop 4 (c # cs))
          else if startsWith (c # cs) (js ''false'') then Some (JBool False, drop 5 (c # cs))
          else
            (case parseNumber (c # cs) of
               None \<Rightarrow> None
             | Some (num, r) \<Rightarrow> Some (JNumber num, r)))"
| "parseElements 0 acc s = None"
| "parseElements (Suc n) acc s =
     (case parseValue n s of
        None \<Rightarrow> None
      | Some (v, r) \<Rightarrow>
          (case skipSpace r of
             [] \<Rightarrow> None
           | c # r' \<Rightarrow>
               if c = 0x2C then parseElements n (v # acc) r'
               else if c = 0x5D then Some (JArray (rev (v # acc)), r')
               else None))"
| "parseMembers 0 acc s = None"
| "parseMembers (Suc n) acc s =
     (case skipSpace s of
        [] \<Rightarrow> None
      | q # cs \<Rightarrow>
          if q \<noteq> 0x22 then None
          else
            (case parseStringBody [] cs of
               None \<Rightarrow> None
             | Some (k, r) \<Rightarrow>
                 (case skipSpace r of
                    [] \<Rightarrow> None
                  | c # r1 \<Rightarrow>
                      if c \<noteq> 0x3A then None
                      else
                        (case parseValue n r1 of
                           None \<Rightarrow> None
                         | Some (v, r2) \<Rightarrow>
                             (case skipSpace r2 of
                                [] \<Rightarrow> None
                              | d # r3 \<Rightarrow>
                                  if d = 0x2C then parseMembers n ((k, v) # acc) r3
                                  else if d = 0x7D then Some (JObject (rev ((k, v) # acc)), r3)
                                  else None)))))"

definition JSON_parse :: "jsstring \<Rightarrow> json option" where
  "JSON_parse s =
     (case parseValue (2 * length s + 2) s of
        None \<Rightarrow> None
      | Some (v, r) \<Rightarrow> if skipSpace r = [] then Some v else None)"

section \<open>Workflow identifier extractor\<close>

text \<open>
  The regular expression of \<open>extractWorkflowId\<close>,
  \<open>/workflow_id\s*=\s*["']([a-f0-9-]+)["']/i\<close>, is a sequence of atoms: one code
  unit of a class, a greedy \<open>*\<close> of a class, and the capture group around a greedy
  \<open>+\<close> of a class. \<open>matchSeq\<close> is the backtracking matcher at one position: a
  repetition takes as many code units as it can and gives them back one at a
  time while the rest of the pattern fails. Its result is the capture.
\<close>

datatype atom =
    Unit "code_unit \<Rightarrow> bool"
  | Many "code_unit \<Rightarrow> bool"
  | CapturePlus "code_unit \<Rightarrow> bool"

function matchSeq :: "atom list \<Rightarrow> jsstring \<Rightarrow> jsstring option \<Rightarrow> jsstring option option"
  and matchCapture ::
    "(code_unit \<Rightarrow> bool) \<Rightarrow> jsstring \<Rightarrow> atom list \<Rightarrow> jsstring \<Rightarrow> jsstring option option"
where
  "matchSeq [] s cap = Some cap"
| "matchSeq (Unit P # rs) s cap =
     (case s of
        [] \<Rightarrow> None
      | c # cs \<Rightarrow> if P c then matchSeq rs cs cap else None)"
| "matchSeq (Many P # rs) s cap =
     (case s of
        [] \<Rightarrow> matchSeq rs s cap
      | c # cs \<Rightarrow>
          if P c then
            (case matchSeq (Many P # rs) cs cap of
               Some r \<Rightarrow> Some r
             | None \<Rightarrow> matchSeq rs s cap)
          else matchSeq rs s cap)"
| "matchSeq (CapturePlus P # rs) s cap =
     (case s of
        [] \<Rightarrow> None
      | c # cs \<Rightarrow> if P c then matchCapture P [c] rs cs else None)"
| "matchCapture P acc rs s =
     (case s of
        [] \<Rightarrow> matchSeq rs s (Some acc)
      | c # cs \<Rightarrow>
          if P c then
            (case matchCapture P (acc @ [c]) rs cs of
               Some r \<Rightarrow> Some r
             | None \<Rightarrow> matchSeq rs s (Some acc))
          else matchSeq rs s (Some acc))"
  by pat_completeness auto
termination
  by (relation "measure (\<lambda>x. case x of
          Inl (rs, s, cap) \<Rightarrow> 2 * (length rs + length s)
        | Inr (P, acc, rs, s) \<Rightarrow> 2 * (length rs + length s) + 1)") auto

text \<open>\<open>s.match(re)\<close> without the \<open>g\<close> flag: the match at the first position that
  has one; \<open>None\<close> is \<open>null\<close>.\<close>

fun regexMatch :: "atom list \<Rightarrow> jsstring \<Rightarrow> jsstring option option" where
  "regexMatch re [] = matchSeq re [] None"
| "regexMatch re (c # cs) =
     (case matchSeq re (c # cs) None of
        Some cap \<Rightarrow> Some cap
      | None \<Rightarrow> regexMatch re cs)"

text \<open>
  The \<open>i\<close> flag compares code units after \<open>Canonicalize\<close>, which upper-cases. An
  ASCII letter goes to its capital; a code unit from 128 on stays at 128 or
  above, so it never meets an ASCII code unit of the pattern and is left as it is
  here.
\<close>

definition canonicalize :: "code_unit \<Rightarrow> code_unit" where
  "canonicalize c = (if 0x61 \<le> c \<and> c \<le> 0x7A then c - 0x20 else c)"

definition ignoreCase :: "jsstring \<Rightarrow> code_unit \<Rightarrow> bool" where
  "ignoreCase members c = list_ex (\<lambda>a. canonicalize a = canonicalize c) members"

definition literal :: "jsstring \<Rightarrow> atom list" where
  "literal s = map (\<lambda>x. Unit (ignoreCase [x])) s"

definition workflowIdRegex :: "atom list" where
  "workflowIdRegex =
     literal (js ''workflow_id'') @
     [Many isWhiteSpace, Unit (ignoreCase (js ''='')), Many isWhiteSpace,
      Unit (ignoreCase [0x22, 0x27]),
      CapturePlus (ignoreCase (js ''abcdef0123456789-'')),
      Unit (ignoreCase [0x22, 0x27])]"

definition extractWorkflowId :: "jsstring \<Rightarrow> jsstring option" where
  "extractWorkflowId fileContent =
     (case regexMatch workflowIdRegex fileContent of
        None \<Rightarrow> None
      | Some None \<Rightarrow> None
      | Some (Some group1) \<Rightarrow> if group1 \<noteq> [] then Some group1 else None)"

text \<open>A hexadecimal digit of either case, or a hyphen.\<close>

definition isHexOrHyphen :: "code_unit \<Rightarrow> bool" where
  "isHexOrHyphen c =
     ((0x30 \<le> c \<and> c \<le> 0x39) \<or> (0x41 \<le> c \<and> c \<le> 0x46)
      \<or> (0x61 \<le> c \<and> c \<le> 0x66) \<or> c = 0x2D)"

text \<open>Every capture group of a pattern ranges over code units that satisfy \<open>R\<close>.\<close>

fun capturesWithin :: "(code_unit \<Rightarrow> bool) \<Rightarrow> atom list \<Rightarrow> bool" where
  "capturesWithin R [] = True"
| "capturesWithin R (CapturePlus P # rs) = ((\<forall>c. P c \<longrightarrow> R c) \<and> capturesWithin R rs)"
| "capturesWithin R (Unit P # rs) = capturesWithin R rs"
| "capturesWithin R (Many P # rs) = capturesWithin R rs"

section \<open>Command executor and the build-and-push orchestrator\<close>

text \<open>
  What a run of \<open>child_process.exec\<close> hands to its callback: the error (its
  message; \<open>None\<close> when the child exits with code zero), and the captured streams.
\<close>

record exec_result =
  execError :: "jsstring option"
  stdout :: jsstring
  stderr :: jsstring

text \<open>
  The host of the extension: the editor's state, the configuration, the file
  system and the \<open>path\<close> module, and the outcome of each subprocess, which may
  depend on the commands run before it.
\<close>

record host =
  activeEditorPath :: "jsstring option"
  workspaceFolder :: "jsstring option"
  configPythonPath :: "jsstring option"
  existsSync :: "jsstring \<Rightarrow> bool"
  childExec :: "jsstring list \<Rightarrow> jsstring \<Rightarrow> jsstring \<Rightarrow> exec_result"
  pathBasename :: "jsstring \<Rightarrow> jsstring option \<Rightarrow> jsstring"
  pathDirname :: "jsstring \<Rightarrow> jsstring"
  pathJoin :: "jsstring \<Rightarrow> jsstring list \<Rightarrow> jsstring"

text \<open>
  The effects, in the order they happen: \<open>Exec command cwd venv\<close> is a subprocess
  started through the shell in \<open>cwd\<close>, with \<open>venv\<close> put in front of \<open>PATH\<close> when
  the virtual environment's directory exists.
\<close>

datatype rejection = NoWorkspaceFolder | ExecFailed jsstring

datatype event =
    ShowOutputChannel
  | AppendLine jsstring
  | ShowErrorMessage jsstring
  | ShowWarningMessage jsstring
  | ShowInformationMessage jsstring
  | SaveDocument
  | Exec jsstring jsstring "jsstring option"
  | ConsoleError jsstring rejection

fun executed :: "event list \<Rightarrow> jsstring list" where
  "executed [] = []"
| "executed (Exec command cwd venv # es) = command # executed es"
| "executed (e # es) = executed es"

definition executePy2RocketCommand ::
  "host \<Rightarrow> jsstring \<Rightarrow> jsstring \<Rightarrow> jsstring option \<Rightarrow> event list
     \<Rightarrow> (rejection + unit) \<times> event list" where
  "executePy2RocketCommand h command filePath workingDir trace =
     (case workspaceFolder h of
        None \<Rightarrow>
          (Inl NoWorkspaceFolder,
           trace @ [ShowErrorMessage (js ''No hay una carpeta de trabajo abierta'')])
      | Some folder \<Rightarrow>
          (let t1 = trace @
                 [ShowOutputChannel,
                  AppendLine ([0x0A] @ replicate 60 0x3D),
                  AppendLine (js ''Ejecutando: '' @ command),
                  AppendLine (js ''Archivo: '' @ filePath),
                  AppendLine (replicate 60 0x3D @ [0x0A])];
               cwd = (case workingDir of
                        None \<Rightarrow> pathDirname h filePath
                      | Some d \<Rightarrow> if d \<noteq> [] then d else pathDirname h filePath);
               venvPath = pathJoin h folder [js ''.venv'', js ''Scripts''];
               venv = (if existsSync h venvPath then Some venvPath else None);
               r = childExec h (executed t1) command cwd;
               t2 = t1 @ [Exec command cwd venv]
                      @ (if stdout r \<noteq> [] then [AppendLine (stdout r)] else [])
                      @ (if stderr r \<noteq> [] then [AppendLine (js ''STDERR: '' @ stderr r)] else [])
           in case execError r of
                Some message \<Rightarrow>
                  (Inl (ExecFailed message),
                   t2 @ [AppendLine ([0x0A] @ js ''Error: '' @ message),
                         ShowErrorMessage (js ''Error ejecutando py2rocket: '' @ message)])
              | None \<Rightarrow>
                  (Inr (),
                   t2 @ [AppendLine ([0x0A, 0x2713] @ js '' Comando completado exitosamente''),
                         ShowInformationMessage ([0x2713] @ js '' '' @ command @ js '' completado'')])))"

definition quoteIfNeeded :: "jsstring \<Rightarrow> jsstring" where
  "quoteIfNeeded v =
     (if v = [] then v
      else if 0x20 \<in> set v \<and> \<not> startsWith v [0x22] then [0x22] @ v @ [0x22]
      else v)"

definition findVenvPython :: "host \<Rightarrow> jsstring option" where
  "findVenvPython h =
     (case workspaceFolder h of
        None \<Rightarrow> None
      | Some folder \<Rightarrow>
          (let venvRoot = pathJoin h folder [js ''.venv''];
               windowsPython = pathJoin h venvRoot [js ''Scripts'', js ''python.exe''];
               unixPython = pathJoin h venvRoot [js ''bin'', js ''python'']
           in if existsSync h windowsPython then Some windowsPython
              else if existsSync h unixPython then Some unixPython
              else None))"

definition getPythonCommand :: "host \<Rightarrow> jsstring" where
  "getPythonCommand h =
     (let pythonPath = (case configPythonPath h of
                          None \<Rightarrow> js ''python''
                        | Some p \<Rightarrow> if p \<noteq> [] then p else js ''python'')
      in if pythonPath \<noteq> [] \<and> pythonPath \<noteq> js ''python'' then quoteIfNeeded pythonPath
         else (case findVenvPython h of
                 Some venvPython \<Rightarrow> js ''python''
               | None \<Rightarrow> js ''python''))"

definition getActiveFilePath :: "host \<Rightarrow> event list \<Rightarrow> jsstring option \<times> event list" where
  "getActiveFilePath h trace =
     (case activeEditorPath h of
        None \<Rightarrow> (None, trace @ [ShowErrorMessage (js ''No hay archivo activo'')])
      | Some filePath \<Rightarrow>
          if \<not> endsWith filePath (js ''.py'')
          then (None, trace @ [ShowWarningMessage (js ''El archivo activo no es un archivo Python'')])
          else (Some filePath, trace))"

text \<open>The two command lines of \<open>buildAndPushCommand\<close>.\<close>

definition buildCommandLine :: "host \<Rightarrow> jsstring \<Rightarrow> jsstring" where
  "buildCommandLine h filePath =
     getPythonCommand h @ js '' -m py2rocket build '' @ [0x22]
       @ pathBasename h filePath None @ [0x22]"

definition pushCommandLine :: "host \<Rightarrow> jsstring \<Rightarrow> jsstring" where
  "pushCommandLine h filePath =
     getPythonCommand h @ js '' -m py2rocket push '' @ [0x22]
       @ (pathBasename h filePath (Some (js ''.py'')) @ js ''.json'') @ [0x22]"

text \<open>
  \<open>buildAndPushCommand\<close>: each \<open>await\<close> of a rejected promise inside \<open>try\<close> goes
  to the \<open>catch\<close>, which logs to the console. The promise of \<open>document.save()\<close>
  resolves to a boolean that the code does not read.
\<close>

definition buildAndPushCommand :: "host \<Rightarrow> event list \<Rightarrow> event list" where
  "buildAndPushCommand h trace =
     (case getActiveFilePath h trace of
        (None, t0) \<Rightarrow> t0
      | (Some filePath, t0) \<Rightarrow>
          (let fileNameWithoutExt = pathBasename h filePath (Some (js ''.py''));
               fileDir = pathDirname h filePath;
               t1 = t0 @ [SaveDocument, AppendLine (js ''Paso 1/2: Building...'')]
           in case executePy2RocketCommand h (buildCommandLine h filePath) filePath
                     (Some fileDir) t1 of
                (Inl err, t2) \<Rightarrow> t2 @ [ConsoleError (js ''Error en build and push:'') err]
              | (Inr u, t2) \<Rightarrow>
                  (let t3 = t2 @ [AppendLine ([0x0A] @ js ''Paso 2/2: Pushing to Rocket...'')]
                   in case executePy2RocketCommand h (pushCommandLine h filePath) filePath
                             (Some fileDir) t3 of
                        (Inl err, t4) \<Rightarrow>
                          t4 @ [ConsoleError (js ''Error en build and push:'') err]
                      | (Inr u', t4) \<Rightarrow>
                          t4 @ [ShowInformationMessage
                                  ([0x2713] @ js '' Build and Push completado: ''
                                     @ fileNameWithoutExt)])))"

text \<open>
  A host on POSIX paths, for evaluating the orchestrator: \<open>posixBasename\<close> and
  \<open>posixDirname\<close> model \<open>path.posix.basename\<close> and \<open>path.posix.dirname\<close>.
\<close>

definition posixBasename :: "jsstring \<Rightarrow> jsstring option \<Rightarrow> jsstring" where
  "posixBasename p ext =
     (let comps = filter (\<lambda>c. c \<noteq> []) (splitOn 0x2F p);
          base = (if comps = [] then [] else last comps)
      in case ext of
           None \<Rightarrow> base
         | Some e \<Rightarrow>
             if e \<noteq> [] \<and> e = p then []
             else if e \<noteq> [] \<and> length e < length base \<and> endsWith base e
             then take (length base - length e) base
             else base)"

definition posixDirname :: "jsstring \<Rightarrow> jsstring" where
  "posixDirname p =
     (case p of
        [] \<Rightarrow> js ''.''
      | c # cs \<Rightarrow>
          (let hasRoot = (c = 0x2F);
               r = dropWhile (\<lambda>x. x \<noteq> 0x2F) (dropWhile (\<lambda>x. x = 0x2F) (rev cs))
           in case r of
                [] \<Rightarrow> if hasRoot then js ''/'' else js ''.''
              | s # front \<Rightarrow>
                  if hasRoot \<and> front = [] then js ''//''
                  else c # rev front))"

definition posixHost ::
  "jsstring option \<Rightarrow> jsstring option
     \<Rightarrow> (jsstring list \<Rightarrow> jsstring \<Rightarrow> jsstring \<Rightarrow> exec_result) \<Rightarrow> host" where
  "posixHost editor folder run =
     \<lparr> activeEditorPath = editor, workspaceFolder = folder, configPythonPath = None,
       existsSync = (\<lambda>p. False), childExec = run,
       pathBasename = posixBasename, pathDirname = posixDirname, pathJoin = posixJoin \<rparr>"

text \<open>A subprocess outcome for the examples: every command fails.\<close>

definition failingRun :: "jsstring list \<Rightarrow> jsstring \<Rightarrow> jsstring \<Rightarrow> exec_result" where
  "failingRun history command cwd =
     \<lparr> execError = Some (js ''Command failed: '' @ command), stdout = [],
       stderr = js ''SyntaxError'' \<rparr>"

section \<open>Splitting and joining\<close>

lemma js_slash: "js ''/'' = [0x2F]"
  by (simp add: js_def)

lemma splitOn_not_Nil: "splitOn sep s \<noteq> []"
  by (induction s) (auto split: list.splits)

lemma splitOn_no_sep: "p \<in> set (splitOn sep s) \<Longrightarrow> sep \<notin> set p"
proof (induction s arbitrary: p)
  case Nil
  then show ?case by simp
next
  case (Cons c cs)
  show ?case
  proof (cases "c = sep")
    case True
    with Cons show ?thesis by auto
  next
    case False
    obtain q qs where q: "splitOn sep cs = q # qs"
      using splitOn_not_Nil [of sep cs] by (cases "splitOn sep cs") auto
    with False Cons.prems have "p = c # q \<or> p \<in> set qs" by simp
    then show ?thesis
    proof
      assume "p = c # q"
      moreover have "sep \<notin> set q" using Cons.IH [of q] q by simp
      ultimately show ?thesis using False by auto
    next
      assume "p \<in> set qs"
      then show ?thesis using Cons.IH [of p] q by simp
    qed
  qed
qed

lemma splitOn_sepfree: "sep \<notin> set a \<Longrightarrow> splitOn sep a = [a]"
  by (induction a) auto

lemma splitOn_append: "splitOn sep (a @ sep # b) = splitOn sep a @ splitOn sep b"
proof (induction a)
  case Nil
  then show ?case by simp
next
  case (Cons c cs)
  obtain q qs where q: "splitOn sep cs = q # qs"
    using splitOn_not_Nil [of sep cs] by (cases "splitOn sep cs") auto
  with Cons show ?case by simp
qed

lemma joinWith_splitOn: "joinWith [sep] (splitOn sep s) = s"
proof (induction s)
  case Nil
  then show ?case by simp
next
  case (Cons c cs)
  obtain q qs where q: "splitOn sep cs = q # qs"
    using splitOn_not_Nil [of sep cs] by (cases "splitOn sep cs") auto
  show ?case
  proof (cases "c = sep")
    case True
    with Cons q show ?thesis by simp
  next
    case False
    with Cons q show ?thesis by (cases qs) auto
  qed
qed

lemma splitOn_joinWith:
  "parts \<noteq> [] \<Longrightarrow> (\<And>p. p \<in> set parts \<Longrightarrow> sep \<notin> set p)
     \<Longrightarrow> splitOn sep (joinWith [sep] parts) = parts"
proof (induction "[sep]" parts rule: joinWith.induct)
  case 1
  then show ?case by simp
next
  case (2 p)
  then show ?case by (simp add: splitOn_sepfree)
next
  case (3 p q ps)
  have "splitOn sep (joinWith [sep] (p # q # ps)) = splitOn sep p @ splitOn sep (joinWith [sep] (q # ps))"
    by (simp add: splitOn_append)
  also have "splitOn sep p = [p]" using 3(3) by (simp add: splitOn_sepfree)
  also have "splitOn sep (joinWith [sep] (q # ps)) = q # ps" using 3 by simp
  finally show ?case by simp
qed

lemma set_joinWith: "set (joinWith sep parts) \<subseteq> set sep \<union> \<Union> (set ` set parts)"
  by (induction sep parts rule: joinWith.induct) auto

lemma part_subset_joinWith: "p \<in> set parts \<Longrightarrow> set p \<subseteq> set (joinWith sep parts)"
  by (induction sep parts rule: joinWith.induct) auto

lemma joinWith_Nil_iff:
  "(\<And>p. p \<in> set parts \<Longrightarrow> p \<noteq> []) \<Longrightarrow> joinWith sep parts = [] \<longleftrightarrow> parts = []"
  by (induction sep parts rule: joinWith.induct) auto

lemma normalized_eq: "normalized (normalizeGroupPath v) = joinWith [0x2F] (segmentsOf v)"
  by (simp add: normalizeGroupPath_def segmentsOf_def js_slash Let_def)

lemma segmentsOf_nonempty: "p \<in> set (segmentsOf v) \<Longrightarrow> p \<noteq> []"
  by (simp add: segmentsOf_def filterBoolean_def)

lemma segmentsOf_no_slash: "p \<in> set (segmentsOf v) \<Longrightarrow> 0x2F \<notin> set p"
  by (auto simp: segmentsOf_def filterBoolean_def dest: splitOn_no_sep)

lemma segmentsOf_no_backslash: "p \<in> set (segmentsOf v) \<Longrightarrow> 0x5C \<notin> set p"
proof -
  assume "p \<in> set (segmentsOf v)"
  then have "p \<in> set (splitOn 0x2F (replaceAll 0x5C 0x2F (trim v)))"
    by (simp add: segmentsOf_def filterBoolean_def)
  then have "set p \<subseteq> set (joinWith [0x2F] (splitOn 0x2F (replaceAll 0x5C 0x2F (trim v))))"
    by (rule part_subset_joinWith)
  then show ?thesis
    by (auto simp: joinWith_splitOn replaceAll_def)
qed

lemma splitGroupPath_eq: "splitGroupPath v = segmentsOf v"
proof (cases "segmentsOf v = []")
  case True
  then show ?thesis by (simp add: splitGroupPath_def normalized_eq)
next
  case False
  then have "joinWith [0x2F] (segmentsOf v) \<noteq> []"
    using joinWith_Nil_iff [of "segmentsOf v" "[0x2F]"] segmentsOf_nonempty by blast
  then show ?thesis
    using False splitOn_joinWith [of "segmentsOf v" "0x2F"] segmentsOf_no_slash
    by (simp add: splitGroupPath_def normalized_eq)
qed


lemma no_empty_piece_start: "[] \<notin> set (splitOn sep n) \<Longrightarrow> \<not> startsWith n [sep]"
  by (cases n) (auto simp: startsWith_def)

lemma no_empty_piece_end: "[] \<notin> set (splitOn sep n) \<Longrightarrow> \<not> endsWith n [sep]"
proof
  assume a: "[] \<notin> set (splitOn sep n)" and e: "endsWith n [sep]"
  have "n = take (length n - 1) n @ drop (length n - 1) n" by simp
  with e have "n = take (length n - 1) n @ sep # []" by (simp add: endsWith_def)
  then have "splitOn sep n = splitOn sep (take (length n - 1) n) @ splitOn sep []"
    using splitOn_append [of sep "take (length n - 1) n" "[]"] by simp
  with a show False by simp
qed

lemma no_empty_piece_double: "[] \<notin> set (splitOn sep n) \<Longrightarrow> \<not> sublist [sep, sep] n"
proof
  assume a: "[] \<notin> set (splitOn sep n)" and e: "sublist [sep, sep] n"
  then obtain ps ss where "n = ps @ sep # (sep # ss)" by (auto simp: sublist_def)
  then have "splitOn sep n = splitOn sep ps @ splitOn sep (sep # ss)"
    by (simp only: splitOn_append)
  with a show False by simp
qed

lemma normalized_pieces:
  "normalized (normalizeGroupPath v) = [] \<or> [] \<notin> set (splitOn 0x2F (normalized (normalizeGroupPath v)))"
proof (cases "segmentsOf v = []")
  case True
  then show ?thesis by (simp add: normalized_eq)
next
  case False
  then have "splitOn 0x2F (normalized (normalizeGroupPath v)) = segmentsOf v"
    using splitOn_joinWith [of "segmentsOf v" "0x2F"] segmentsOf_no_slash
    by (simp add: normalized_eq)
  then show ?thesis using segmentsOf_nonempty [of "[]" v] by auto
qed

lemma normalized_no_backslash: "0x5C \<notin> set (normalized (normalizeGroupPath v))"
proof
  assume "0x5C \<in> set (normalized (normalizeGroupPath v))"
  then have "0x5C \<in> set [0x2F::code_unit] \<union> \<Union> (set ` set (segmentsOf v))"
    using set_joinWith [of "[0x2F]" "segmentsOf v"] by (auto simp: normalized_eq)
  then show False using segmentsOf_no_backslash by auto
qed

section \<open>Shape of a normalized path\<close>

text \<open>
  C9. For every input string, the normalized path produced by \<open>normalizeGroupPath\<close>
  holds no backslash and no empty segment: it does not start with \<open>/\<close>, does not end
  with \<open>/\<close>, and \<open>//\<close> does not occur in it.
\<close>

theorem normalizeGroupPath_no_backslash_no_empty_segment:
  "0x5C \<notin> set (normalized (normalizeGroupPath v))
   \<and> \<not> startsWith (normalized (normalizeGroupPath v)) (js ''/'')
   \<and> \<not> endsWith (normalized (normalizeGroupPath v)) (js ''/'')
   \<and> \<not> sublist (js ''//'') (normalized (normalizeGroupPath v))
   \<and> [] \<notin> set (splitGroupPath v)"
proof -
  let ?n = "normalized (normalizeGroupPath v)"
  have d: "js ''//'' = [0x2F, 0x2F]" by (simp add: js_def)
  have "\<not> startsWith ?n [0x2F] \<and> \<not> endsWith ?n [0x2F] \<and> \<not> sublist [0x2F, 0x2F] ?n"
    using normalized_pieces [of v]
  proof
    assume "?n = []"
    then show ?thesis by (simp add: startsWith_def endsWith_def)
  next
    assume "[] \<notin> set (splitOn 0x2F ?n)"
    then show ?thesis
      by (simp add: no_empty_piece_start no_empty_piece_end no_empty_piece_double)
  qed
  moreover have "[] \<notin> set (splitGroupPath v)"
    using segmentsOf_nonempty [of "[]" v] by (auto simp: splitGroupPath_eq)
  ultimately show ?thesis
    using normalized_no_backslash [of v] by (simp add: js_slash d)
qed

section \<open>Safety validation\<close>

text \<open>
  C5. Whenever the segment list of an input holds a segment \<open>.\<close> or \<open>..\<close>, at any
  position, \<open>isSafeGroupParts (splitGroupPath input)\<close> is false.
\<close>

theorem isSafeGroupParts_rejects_dot_segments:
  "js ''.'' \<in> set (splitGroupPath v) \<or> js ''..'' \<in> set (splitGroupPath v)
     \<Longrightarrow> \<not> isSafeGroupParts (splitGroupPath v)"
  by (auto simp: isSafeGroupParts_def list_all_iff)

theorem isSafeGroupParts_rejects_dot_segments_witness:
  "(js ''.'' \<in> set (splitGroupPath (js ''a/../b''))
      \<or> js ''..'' \<in> set (splitGroupPath (js ''a/../b'')))
   \<and> \<not> isSafeGroupParts (splitGroupPath (js ''a/../b''))"
proof -
  have h: "js ''.'' \<in> set (splitGroupPath (js ''a/../b''))
             \<or> js ''..'' \<in> set (splitGroupPath (js ''a/../b''))"
    by code_simp
  show ?thesis
    using h isSafeGroupParts_rejects_dot_segments [OF h] by simp
qed

section \<open>Full group names\<close>




section \<open>Idempotence of normalization\<close>

text \<open>
  C6, as stated, fails: \<open>trim\<close> is applied to the whole input only, so a segment
  of the normalized path may begin or end with white space, which a second
  normalization trims away.
\<close>

theorem normalizeGroupPath_idempotent_counterexample:
  "normalized (normalizeGroupPath (js ''/ a'')) = js '' a''
   \<and> normalized (normalizeGroupPath (normalized (normalizeGroupPath (js ''/ a'')))) = js ''a''
   \<and> normalized (normalizeGroupPath (normalized (normalizeGroupPath (js ''/ a''))))
       \<noteq> normalized (normalizeGroupPath (js ''/ a''))"
  by code_simp

lemma replaceAll_absent: "a \<notin> set s \<Longrightarrow> replaceAll a b s = s"
  by (induction s) (auto simp: replaceAll_def)

lemma filterBoolean_segmentsOf: "filterBoolean (segmentsOf v) = segmentsOf v"
  by (simp add: segmentsOf_def filterBoolean_def)

lemma segmentsOf_untrimmed:
  assumes "trim n = n" and "n = normalized (normalizeGroupPath v)"
  shows "segmentsOf n = segmentsOf v"
proof (cases "segmentsOf v = []")
  case True
  with assms show ?thesis
    by (simp add: normalized_eq segmentsOf_def filterBoolean_def replaceAll_def trim_def
        trimStart_def trimEnd_def)
next
  case False
  have "replaceAll 0x5C 0x2F n = n"
    using assms(2) normalized_no_backslash [of v] by (simp add: replaceAll_absent)
  moreover have "splitOn 0x2F n = segmentsOf v"
    using False splitOn_joinWith [of "segmentsOf v" "0x2F"] segmentsOf_no_slash assms(2)
    by (simp add: normalized_eq)
  ultimately have "segmentsOf n = filterBoolean (segmentsOf v)"
    using assms(1) by (simp add: segmentsOf_def)
  then show ?thesis by (simp add: filterBoolean_segmentsOf)
qed

lemma dropWhile_same_length: "length (dropWhile P xs) = length xs \<Longrightarrow> dropWhile P xs = xs"
proof -
  assume a: "length (dropWhile P xs) = length xs"
  have "length (takeWhile P xs) + length (dropWhile P xs) = length xs"
    by (metis length_append takeWhile_dropWhile_id)
  with a have "takeWhile P xs = []" by simp
  then show ?thesis by (metis append_Nil takeWhile_dropWhile_id)
qed

lemma length_trim_le: "length (trim s) \<le> length s"
proof -
  have "length (trim s) \<le> length (dropWhile isWhiteSpace s)"
    by (simp add: trim_def trimEnd_def trimStart_def)
       (metis length_dropWhile_le length_rev)
  also have "\<dots> \<le> length s" by (rule length_dropWhile_le)
  finally show ?thesis .
qed

lemma trim_same_length: "length (trim s) = length s \<Longrightarrow> trim s = s"
proof -
  assume a: "length (trim s) = length s"
  have b: "length (trim s) \<le> length (dropWhile isWhiteSpace s)"
    by (simp add: trim_def trimEnd_def trimStart_def)
       (metis length_dropWhile_le length_rev)
  have c: "length (dropWhile isWhiteSpace s) \<le> length s" by (rule length_dropWhile_le)
  from a b c have "length (dropWhile isWhiteSpace s) = length s" by simp
  then have d: "dropWhile isWhiteSpace s = s" by (rule dropWhile_same_length)
  with a have "length (dropWhile isWhiteSpace (rev s)) = length (rev s)"
    by (simp add: trim_def trimEnd_def trimStart_def)
  then have "dropWhile isWhiteSpace (rev s) = rev s" by (rule dropWhile_same_length)
  with d show ?thesis by (simp add: trim_def trimEnd_def trimStart_def)
qed

lemma length_joinWith_filterBoolean:
  "length (joinWith sep (filterBoolean ps)) \<le> length (joinWith sep ps)"
proof (induction sep ps rule: joinWith.induct)
  case (1 sep)
  then show ?case by (simp add: filterBoolean_def)
next
  case (2 sep p)
  then show ?case by (simp add: filterBoolean_def)
next
  case (3 sep p q ps)
  show ?case
  proof (cases "filterBoolean (q # ps)")
    case Nil
    then show ?thesis by (simp add: filterBoolean_def)
  next
    case (Cons r rs)
    with 3 show ?thesis by (simp add: filterBoolean_def)
  qed
qed

lemma length_normalized_le: "length (normalized (normalizeGroupPath v)) \<le> length (trim v)"
proof -
  have "length (normalized (normalizeGroupPath v))
          \<le> length (joinWith [0x2F] (splitOn 0x2F (replaceAll 0x5C 0x2F (trim v))))"
    unfolding normalized_eq segmentsOf_def by (rule length_joinWith_filterBoolean)
  then show ?thesis by (simp add: joinWith_splitOn replaceAll_def)
qed

text \<open>
  C6, amended. \<open>normalizeGroupPath\<close> is idempotent exactly on the inputs whose
  normalized path neither begins nor ends with white space (\<open>trim\<close> leaves it
  unchanged): for these, and only for these, applying \<open>normalizeGroupPath\<close> to
  the normalized path yields that same normalized path.
\<close>

theorem normalizeGroupPath_idempotent_iff_trimmed:
  "normalized (normalizeGroupPath (normalized (normalizeGroupPath v)))
       = normalized (normalizeGroupPath v)
     \<longleftrightarrow> trim (normalized (normalizeGroupPath v)) = normalized (normalizeGroupPath v)"
proof
  let ?n = "normalized (normalizeGroupPath v)"
  assume "normalized (normalizeGroupPath ?n) = ?n"
  then have "length ?n \<le> length (trim ?n)"
    using length_normalized_le [of ?n] by simp
  then have "length (trim ?n) = length ?n"
    using length_trim_le [of ?n] by simp
  then show "trim ?n = ?n" by (rule trim_same_length)
next
  assume "trim (normalized (normalizeGroupPath v)) = normalized (normalizeGroupPath v)"
  then show "normalized (normalizeGroupPath (normalized (normalizeGroupPath v)))
           = normalized (normalizeGroupPath v)"
    using segmentsOf_untrimmed [of "normalized (normalizeGroupPath v)" v]
    by (simp add: normalized_eq)
qed

theorem normalizeGroupPath_idempotent_iff_trimmed_witness:
  "trim (normalized (normalizeGroupPath (js '' /proj//groupA/ '' @ [0x5C] @ js ''sub'')))
     = normalized (normalizeGroupPath (js '' /proj//groupA/ '' @ [0x5C] @ js ''sub''))
   \<and> normalized (normalizeGroupPath (js '' /proj//groupA/ '' @ [0x5C] @ js ''sub'')) = js ''proj/groupA/ /sub''
   \<and> normalized (normalizeGroupPath (normalized (normalizeGroupPath
         (js '' /proj//groupA/ '' @ [0x5C] @ js ''sub''))))
       = js ''proj/groupA/ /sub''"
proof -
  have v: "normalized (normalizeGroupPath (js '' /proj//groupA/ '' @ [0x5C] @ js ''sub''))
             = js ''proj/groupA/ /sub''"
    by code_simp
  have h: "trim (normalized (normalizeGroupPath (js '' /proj//groupA/ '' @ [0x5C] @ js ''sub'')))
             = normalized (normalizeGroupPath (js '' /proj//groupA/ '' @ [0x5C] @ js ''sub''))"
    by code_simp
  show ?thesis
    using h v
      normalizeGroupPath_idempotent_iff_trimmed
        [of "js '' /proj//groupA/ '' @ [0x5C] @ js ''sub''"]
    by simp
qed

section \<open>Local group directories\<close>

lemma joinWith_segments_inject:
  assumes a: "\<And>p. p \<in> set xs \<Longrightarrow> p \<noteq> [] \<and> sep \<notin> set p"
      and b: "\<And>p. p \<in> set ys \<Longrightarrow> p \<noteq> [] \<and> sep \<notin> set p"
      and e: "joinWith [sep] xs = joinWith [sep] ys"
  shows "xs = ys"
proof (cases "xs = []")
  case True
  then have "joinWith [sep] ys = []" using e by simp
  then have "ys = []" using joinWith_Nil_iff [of ys "[sep]"] b by blast
  with True show ?thesis by simp
next
  case False
  then have "joinWith [sep] xs \<noteq> []" using joinWith_Nil_iff [of xs "[sep]"] a by blast
  then have "ys \<noteq> []" using e by auto
  have "xs = splitOn sep (joinWith [sep] xs)"
    using False a by (simp add: splitOn_joinWith)
  also have "\<dots> = splitOn sep (joinWith [sep] ys)" using e by simp
  also have "\<dots> = ys" using \<open>ys \<noteq> []\<close> b by (simp add: splitOn_joinWith)
  finally show ?thesis .
qed

lemma segment_prefix_test:
  "joinWith (js ''/'') (take (length (splitGroupPath b)) (splitGroupPath f))
     = joinWith (js ''/'') (splitGroupPath b)
   \<longleftrightarrow> prefix (splitGroupPath b) (splitGroupPath f)"
proof -
  let ?b = "splitGroupPath b" and ?f = "splitGroupPath f"
  have sb: "\<And>p. p \<in> set ?b \<Longrightarrow> p \<noteq> [] \<and> 0x2F \<notin> set p"
    using segmentsOf_nonempty segmentsOf_no_slash by (auto simp: splitGroupPath_eq)
  have sf: "\<And>p. p \<in> set (take (length ?b) ?f) \<Longrightarrow> p \<noteq> [] \<and> 0x2F \<notin> set p"
    using segmentsOf_nonempty segmentsOf_no_slash
    by (auto simp: splitGroupPath_eq dest: in_set_takeD)
  have "joinWith [0x2F] (take (length ?b) ?f) = joinWith [0x2F] ?b
          \<longleftrightarrow> take (length ?b) ?f = ?b"
    using joinWith_segments_inject [of "take (length ?b) ?f" "0x2F" ?b] sb sf by auto
  also have "\<dots> \<longleftrightarrow> prefix ?b ?f"
    by (metis append_take_drop_id prefix_def append_eq_conv_conj)
  finally show ?thesis by (simp add: js_slash)
qed

text \<open>
  C4, as stated, fails in its last part: when the full path does not extend the
  base, all of the full path's segments are joined onto the workspace root.
\<close>

theorem resolveLocalGroupDir_unrelated_counterexample:
  "\<not> prefix (splitGroupPath (js ''g'')) (splitGroupPath (js ''h/a''))
   \<and> resolveLocalGroupDir posixJoin (js ''/ws'') (js ''g'') (js ''h/a'') = js ''/ws/h/a''
   \<and> resolveLocalGroupDir posixJoin (js ''/ws'') (js ''g'') (js ''h/a'') \<noteq> js ''/ws''"
  by code_simp

text \<open>
  C4, amended. \<open>resolveLocalGroupDir\<close> strips the base group path's segments from
  the full group path's segments only when they are an exact segment prefix, and
  joins the remaining segments onto the workspace root (workspace \<open>/ws\<close>, base
  \<open>g\<close>, full \<open>g/a/b\<close> yields \<open>/ws/a/b\<close>; full equal to base yields \<open>/ws\<close>); for a
  full path that does not extend the base, all of its segments are joined onto the
  workspace root (base \<open>g\<close>, full \<open>h/a\<close> yields \<open>/ws/h/a\<close>), and the workspace root
  itself is returned only when no segment remains.
\<close>

theorem resolveLocalGroupDir_strips_exact_prefix:
  "resolveLocalGroupDir joinPath ws base full =
     (let baseParts = splitGroupPath base;
          fullParts = splitGroupPath full;
          relParts = (if baseParts \<noteq> [] \<and> prefix baseParts fullParts
                      then drop (length baseParts) fullParts else fullParts)
      in if relParts = [] then ws else joinPath ws relParts)
   \<and> resolveLocalGroupDir posixJoin (js ''/ws'') (js ''g'') (js ''g/a/b'') = js ''/ws/a/b''
   \<and> resolveLocalGroupDir posixJoin (js ''/ws'') (js ''g'') (js ''g'') = js ''/ws''
   \<and> resolveLocalGroupDir posixJoin (js ''/ws'') (js ''g'') (js ''h/a'') = js ''/ws/h/a''"
proof -
  have "resolveLocalGroupDir joinPath ws base full =
     (let baseParts = splitGroupPath base;
          fullParts = splitGroupPath full;
          relParts = (if baseParts \<noteq> [] \<and> prefix baseParts fullParts
                      then drop (length baseParts) fullParts else fullParts)
      in if relParts = [] then ws else joinPath ws relParts)"
    unfolding resolveLocalGroupDir_def Let_def segment_prefix_test by simp
  moreover have "resolveLocalGroupDir posixJoin (js ''/ws'') (js ''g'') (js ''g/a/b'') = js ''/ws/a/b''"
    by code_simp
  moreover have "resolveLocalGroupDir posixJoin (js ''/ws'') (js ''g'') (js ''g'') = js ''/ws''"
    by code_simp
  moreover have "resolveLocalGroupDir posixJoin (js ''/ws'') (js ''g'') (js ''h/a'') = js ''/ws/h/a''"
    by code_simp
  ultimately show ?thesis by blast
qed

section \<open>Trimming and scanning\<close>

lemma trim_Nil_iff: "trim s = [] \<longleftrightarrow> (\<forall>c\<in>set s. isWhiteSpace c)"
proof
  assume "trim s = []"
  then have "dropWhile isWhiteSpace (rev (dropWhile isWhiteSpace s)) = []"
    by (simp add: trim_def trimEnd_def trimStart_def)
  then have a: "\<forall>c\<in>set (dropWhile isWhiteSpace s). isWhiteSpace c"
    by (simp add: dropWhile_eq_Nil_conv)
  have "dropWhile isWhiteSpace s = []"
  proof (cases "dropWhile isWhiteSpace s")
    case Nil
    then show ?thesis .
  next
    case (Cons x xs)
    then have "\<not> isWhiteSpace x" using hd_dropWhile [of isWhiteSpace s] by simp
    with a Cons show ?thesis by simp
  qed
  then show "\<forall>c\<in>set s. isWhiteSpace c" by (simp add: dropWhile_eq_Nil_conv)
next
  assume "\<forall>c\<in>set s. isWhiteSpace c"
  then show "trim s = []"
    by (auto simp: trim_def trimEnd_def trimStart_def dest: set_dropWhileD)
qed

lemma set_trimStart: "set (trimStart s) \<subseteq> set s"
  by (auto simp: trimStart_def dest: set_dropWhileD)

lemma set_trimEnd: "set (trimEnd s) \<subseteq> set s"
  by (auto simp: trimEnd_def dest: set_dropWhileD)

lemma trim_around:
  assumes "\<not> isWhiteSpace x" and "\<not> isWhiteSpace y"
  shows "trim (pre @ x # m @ y # post) = trimStart pre @ x # m @ y # trimEnd post"
proof -
  have "trimStart (pre @ x # m @ y # post) = trimStart pre @ x # m @ y # post"
    using assms(1) by (simp add: trimStart_def dropWhile_append3)
  moreover have "trimEnd ((trimStart pre @ x # m) @ y # post) = (trimStart pre @ x # m) @ y # trimEnd post"
    using assms(2) by (simp add: trimEnd_def dropWhile_append3)
  ultimately show ?thesis by (simp add: trim_def)
qed

lemma indexOf_absent: "indexOf s c = -1 \<longleftrightarrow> c \<notin> set s"
proof (induction s)
  case Nil
  then show ?case by simp
next
  case (Cons x xs)
  have "indexOf xs c \<ge> -1" for xs
    by (induction xs) (auto simp: Let_def)
  then have "indexOf xs c + 1 \<noteq> -1" by (smt (verit))
  with Cons show ?case by (auto simp: Let_def)
qed

lemma indexOf_first: "c \<notin> set a \<Longrightarrow> indexOf (a @ c # b) c = int (length a)"
proof (induction a)
  case Nil
  then show ?case by simp
next
  case (Cons x xs)
  then show ?case by (auto simp: Let_def)
qed

lemma lastIndexOf_absent: "lastIndexOf s c = -1 \<longleftrightarrow> c \<notin> set s"
proof (cases "c \<in> set s")
  case True
  then obtain a b where s: "s = a @ c # b" and "c \<notin> set b" by (meson split_list_last)
  then have "indexOf (rev s) c = int (length b)"
    using indexOf_first [of c "rev b" "rev a"] by simp
  with s show ?thesis by (auto simp: lastIndexOf_def)
next
  case False
  then have "indexOf (rev s) c = -1" by (simp add: indexOf_absent)
  with False show ?thesis by (simp add: lastIndexOf_def)
qed

lemma lastIndexOf_last: "c \<notin> set b \<Longrightarrow> lastIndexOf (a @ c # b) c = int (length a)"
proof -
  assume "c \<notin> set b"
  then have "indexOf (rev (a @ c # b)) c = int (length b)"
    using indexOf_first [of c "rev b" "rev a"] by simp
  then show ?thesis by (simp add: lastIndexOf_def)
qed

lemma slice_middle: "sliceJS (a @ m @ b) (int (length a)) (int (length a + length m)) = m"
  by (simp add: sliceJS_def)

text \<open>The bracket scan on a text whose first opener precedes its last closer.\<close>

lemma scan_pair:
  assumes "t = a @ c # m @ d # b" and "c \<notin> set a" and "d \<notin> set b"
  shows "indexOf t c = int (length a)"
    and "lastIndexOf t d = int (length a) + 1 + int (length m)"
    and "sliceJS t (indexOf t c) (lastIndexOf t d + 1) = c # m @ [d]"
proof -
  show i: "indexOf t c = int (length a)"
    using assms(1,2) by (simp add: indexOf_first)
  have "t = (a @ c # m) @ d # b" using assms(1) by simp
  then have "lastIndexOf t d = int (length (a @ c # m))"
    using assms(3) lastIndexOf_last by blast
  then show j: "lastIndexOf t d = int (length a) + 1 + int (length m)" by simp
  have "sliceJS (a @ (c # m @ [d]) @ b) (int (length a)) (int (length a + length (c # m @ [d]))) = c # m @ [d]"
    by (rule slice_middle)
  moreover have "int (length a + length (c # m @ [d])) = int (length a) + 1 + int (length m) + 1"
    by simp
  ultimately show "sliceJS t (indexOf t c) (lastIndexOf t d + 1) = c # m @ [d]"
    unfolding i j using assms(1) by simp
qed

lemma scan_pair_exists:
  assumes "indexOf t c \<noteq> -1" and "lastIndexOf t d \<noteq> -1" and "lastIndexOf t d > indexOf t c"
  shows "\<exists>a m b. t = a @ c # m @ d # b"
proof -
  from assms(1) obtain a b where t1: "t = a @ c # b" and ca: "c \<notin> set a"
    by (metis indexOf_absent split_list_first)
  from assms(2) obtain a' b' where t2: "t = a' @ d # b'" and db: "d \<notin> set b'"
    by (metis lastIndexOf_absent split_list_last)
  have i: "indexOf t c = int (length a)" using t1 ca by (simp add: indexOf_first)
  have j: "lastIndexOf t d = int (length a')" using t2 db by (simp add: lastIndexOf_last)
  from i j assms(3) have lt: "length a < length a'" by simp
  from t1 t2 have "a @ c # b = a' @ d # b'" by simp
  then obtain us where "a' = a @ us \<and> us @ d # b' = c # b"
    using lt by (auto simp: append_eq_append_conv2)
  moreover then have "us \<noteq> []" using lt by auto
  ultimately obtain m where "a' = a @ c # m" by (cases us) auto
  with t2 show ?thesis by auto
qed


lemma js_units:
  "js ''{'' = [0x7B]" "js ''}'' = [0x7D]" "js ''['' = [0x5B]" "js '']'' = [0x5D]"
  by (simp_all add: js_def)

lemma not_space_brackets:
  "\<not> isWhiteSpace 0x7B" "\<not> isWhiteSpace 0x7D" "\<not> isWhiteSpace 0x5B" "\<not> isWhiteSpace 0x5D"
  by (simp_all add: isWhiteSpace_def)

lemma startsWith_unit: "startsWith (a @ c # r) [c] \<Longrightarrow> c \<notin> set a \<Longrightarrow> a = []"
  by (cases a) (auto simp: startsWith_def)

lemma endsWith_unit: "endsWith (r @ d # b) [d] \<Longrightarrow> d \<notin> set b \<Longrightarrow> b = []"
proof (rule ccontr)
  assume e: "endsWith (r @ d # b) [d]" and d: "d \<notin> set b" and "b \<noteq> []"
  then obtain b' x where b: "b = b' @ [x]" by (metis rev_exhaust)
  with e have "x = d" by (simp add: endsWith_def)
  with b d show False by simp
qed

text \<open>
  A text that is trimmed, has an opener before a closer and does not take the
  whole-text path through the other pair of brackets, is parsed between its
  first opener and its last closer.
\<close>

lemma parse_object_substring:
  assumes t: "trim out = a @ 0x7B # m @ 0x7D # b"
      and a: "0x7B \<notin> set a" and b: "0x7D \<notin> set b"
      and arr: "\<not> (startsWith (trim out) (js ''['') \<and> endsWith (trim out) (js '']''))"
  shows "parseJsonFromCommandOutput parse out = jsonParse parse (0x7B # m @ [0x7D])"
proof (cases "startsWith (trim out) (js ''{'') \<and> endsWith (trim out) (js ''}'')")
  case True
  have "a = []" using True t a startsWith_unit [of a "0x7B" "m @ 0x7D # b"] by (simp add: js_units)
  moreover have "b = []"
    using True t b endsWith_unit [of "a @ 0x7B # m" "0x7D" b] by (simp add: js_units)
  ultimately have "trim out = 0x7B # m @ [0x7D]" using t by simp
  then show ?thesis using True by (simp add: parseJsonFromCommandOutput_def)
next
  case False
  have i: "indexOf (trim out) 0x7B = int (length a)"
    and j: "lastIndexOf (trim out) 0x7D = int (length a) + 1 + int (length m)"
    and s: "sliceJS (trim out) (indexOf (trim out) 0x7B) (lastIndexOf (trim out) 0x7D + 1)
              = 0x7B # m @ [0x7D]"
    using scan_pair [OF t a b] by auto
  have ne: "trim out \<noteq> []" using t by simp
  show ?thesis
    using False arr ne s unfolding parseJsonFromCommandOutput_def Let_def
    by (auto simp: i j)
qed

lemma parse_array_substring:
  assumes t: "trim out = a @ 0x5B # m @ 0x5D # b"
      and a: "0x5B \<notin> set a" and b: "0x5D \<notin> set b"
      and obj: "\<not> (\<exists>u v w. trim out = u @ 0x7B # v @ 0x7D # w)"
  shows "parseJsonFromCommandOutput parse out = jsonParse parse (0x5B # m @ [0x5D])"
proof -
  have noscan: "\<not> (indexOf (trim out) 0x7B \<noteq> -1 \<and> lastIndexOf (trim out) 0x7D \<noteq> -1
                  \<and> lastIndexOf (trim out) 0x7D > indexOf (trim out) 0x7B)"
    using obj scan_pair_exists [of "trim out" "0x7B" "0x7D"] by blast
  have nofast: "\<not> (startsWith (trim out) (js ''{'') \<and> endsWith (trim out) (js ''}''))"
  proof
    assume f: "startsWith (trim out) (js ''{'') \<and> endsWith (trim out) (js ''}'')"
    then obtain r where r: "trim out = 0x7B # r"
      by (cases "trim out") (auto simp: startsWith_def js_units)
    have "r \<noteq> []" using f r by (auto simp: endsWith_def js_units)
    then obtain r' x where r': "r = r' @ [x]" by (metis rev_exhaust)
    with f r have "x = 0x7D" by (simp add: endsWith_def js_units)
    with r r' have "trim out = [] @ 0x7B # r' @ 0x7D # []" by simp
    with obj show False by blast
  qed
  have ne: "trim out \<noteq> []" using t by simp
  show ?thesis
  proof (cases "startsWith (trim out) (js ''['') \<and> endsWith (trim out) (js '']'')")
    case True
    have "a = []" using True t a startsWith_unit [of a "0x5B" "m @ 0x5D # b"] by (simp add: js_units)
    moreover have "b = []"
      using True t b endsWith_unit [of "a @ 0x5B # m" "0x5D" b] by (simp add: js_units)
    ultimately have "trim out = 0x5B # m @ [0x5D]" using t by simp
    then show ?thesis using True by (simp add: parseJsonFromCommandOutput_def)
  next
    case False
    have i: "indexOf (trim out) 0x5B = int (length a)"
      and j: "lastIndexOf (trim out) 0x5D = int (length a) + 1 + int (length m)"
      and s: "sliceJS (trim out) (indexOf (trim out) 0x5B) (lastIndexOf (trim out) 0x5D + 1)
                = 0x5B # m @ [0x5D]"
      using scan_pair [OF t a b] by auto
    have "parseJsonFromCommandOutput parse out
            = jsonParse parse (sliceJS (trim out) (indexOf (trim out) 0x5B)
                (lastIndexOf (trim out) 0x5D + 1))"
      using False nofast ne noscan unfolding parseJsonFromCommandOutput_def Let_def
      by (auto simp: i j)
    then show ?thesis using s by simp
  qed
qed


section \<open>Texts that are not JSON\<close>

text \<open>
  The two texts below are rejected by the grammar, whatever the bound on the
  recursion: the first has a member that does not begin with a string, the
  second an element that is no value.
\<close>

lemma parseValue_bad_object: "parseValue n (js ''{bad}'') = None"
proof (cases n)
  case 0
  then show ?thesis by simp
next
  case (Suc m)
  then show ?thesis
    by (cases m) (simp_all add: js_def skipSpace_def isJsonSpace_def)
qed

lemma parseValue_bracketed_noise:
  \<open>parseValue n (js ''[info] {"a":1} [done]'') = None\<close>
proof (cases n)
  case 0
  then show ?thesis by simp
next
  case (Suc m)
  show ?thesis
  proof (cases m)
    case 0
    with Suc show ?thesis by (simp add: js_def skipSpace_def isJsonSpace_def)
  next
    case (Suc k)
    with \<open>n = Suc m\<close> show ?thesis
      by (cases k)
         (simp_all add: js_def skipSpace_def isJsonSpace_def startsWith_def parseNumber_def
            optionalUnit_def intPart_def isDigit_def)
  qed
qed

section \<open>Recovering the payload\<close>

text \<open>
  C1, as stated, fails: noise that begins with \<open>[\<close> and ends with \<open>]\<close> sends the
  whole trimmed text to \<open>JSON.parse\<close>, although no brace occurs outside the payload.
\<close>

theorem parseJson_bracketed_noise_counterexample:
  \<open>0x7B \<notin> set (js ''[info] '') \<and> 0x7D \<notin> set (js ''[info] '')
   \<and> 0x7B \<notin> set (js '' [done]'') \<and> 0x7D \<notin> set (js '' [done]'')
   \<and> JSON_parse (js ''{"a":1}'') = Some (JObject [(js ''a'', JNumber (js ''1''))])
   \<and> parseJsonFromCommandOutput JSON_parse (js ''[info] '' @ js ''{"a":1}'' @ js '' [done]'')
       = Inl SyntaxError\<close>
  by code_simp

text \<open>
  C1, amended. For every text made of noise around one embedded JSON object
  \<open>{ ... }\<close>, where no \<open>{\<close> or \<open>}\<close> occurs in the noise and the trimmed text does
  not both start with \<open>[\<close> and end with \<open>]\<close>, \<open>parseJsonFromCommandOutput\<close> returns
  exactly the value of the embedded object.
\<close>

theorem parseJson_recovers_embedded_object:
  assumes "0x7B \<notin> set pre" and "0x7D \<notin> set pre"
      and "0x7B \<notin> set post" and "0x7D \<notin> set post"
      and "parse (0x7B # body @ [0x7D]) = Some v"
      and "\<not> (startsWith (trim (pre @ (0x7B # body @ [0x7D]) @ post)) (js ''['')
              \<and> endsWith (trim (pre @ (0x7B # body @ [0x7D]) @ post)) (js '']''))"
  shows "parseJsonFromCommandOutput parse (pre @ (0x7B # body @ [0x7D]) @ post) = Inr v"
proof -
  let ?text = "pre @ (0x7B # body @ [0x7D]) @ post"
  have t: "trim ?text = trimStart pre @ 0x7B # body @ 0x7D # trimEnd post"
    using trim_around [of "0x7B" "0x7D" pre body post] by (simp add: not_space_brackets)
  have a: "0x7B \<notin> set (trimStart pre)" using assms(1) set_trimStart by blast
  have b: "0x7D \<notin> set (trimEnd post)" using assms(4) set_trimEnd by blast
  have "parseJsonFromCommandOutput parse ?text = jsonParse parse (0x7B # body @ [0x7D])"
    using parse_object_substring [OF t a b assms(6)] .
  then show ?thesis using assms(5) by (simp add: jsonParse_def)
qed

theorem parseJson_recovers_embedded_object_witness:
  \<open>0x7B \<notin> set (js ''INFO: '') \<and> 0x7D \<notin> set (js ''INFO: '')
   \<and> 0x7B \<notin> set (js '' done'') \<and> 0x7D \<notin> set (js '' done'')
   \<and> JSON_parse (0x7B # js ''"a":1'' @ [0x7D]) = Some (JObject [(js ''a'', JNumber (js ''1''))])
   \<and> parseJsonFromCommandOutput JSON_parse (js ''INFO: '' @ (0x7B # js ''"a":1'' @ [0x7D]) @ js '' done'')
       = Inr (JObject [(js ''a'', JNumber (js ''1''))])\<close>
proof -
  have h1: "0x7B \<notin> set (js ''INFO: '')" and h2: "0x7D \<notin> set (js ''INFO: '')"
    and h3: "0x7B \<notin> set (js '' done'')" and h4: "0x7D \<notin> set (js '' done'')"
    by (simp_all add: js_def)
  have h5: \<open>JSON_parse (0x7B # js ''"a":1'' @ [0x7D]) = Some (JObject [(js ''a'', JNumber (js ''1''))])\<close>
    by code_simp
  have h6: \<open>\<not> (startsWith (trim (js ''INFO: '' @ (0x7B # js ''"a":1'' @ [0x7D]) @ js '' done'')) (js ''['')
              \<and> endsWith (trim (js ''INFO: '' @ (0x7B # js ''"a":1'' @ [0x7D]) @ js '' done'')) (js '']''))\<close>
    by code_simp
  show ?thesis
    using h1 h2 h3 h4 h5
      parseJson_recovers_embedded_object
        [where pre = "js ''INFO: ''" and post = "js '' done''" and parse = JSON_parse,
         OF h1 h2 h3 h4 h5 h6]
    by simp
qed

section \<open>Object attempt before array attempt\<close>

text \<open>
  C2, as stated, fails: once a first-\<open>{\<close>-to-last-\<open>}\<close> substring exists, its
  \<open>JSON.parse\<close> result is returned or its \<open>SyntaxError\<close> thrown; the \<open>[\<close>...\<open>]\<close>
  substring is not tried.
\<close>

theorem parseJson_no_array_retry_counterexample:
  "JSON_parse (js ''{bad}'') = None
   \<and> JSON_parse (js ''[1]'') = Some (JArray [JNumber (js ''1'')])
   \<and> parseJsonFromCommandOutput JSON_parse (js ''x {bad} [1] y'') = Inl SyntaxError"
  by code_simp

text \<open>
  C2, amended. In the bracket scan, when the trimmed text holds a \<open>{\<close> before a
  later \<open>}\<close> (and does not both start with \<open>[\<close> and end with \<open>]\<close>), the outcome of
  \<open>JSON.parse\<close> on the first-\<open>{\<close>-to-last-\<open>}\<close> substring is the outcome of
  \<open>parseJsonFromCommandOutput\<close>, a thrown \<open>SyntaxError\<close> included. The
  first-\<open>[\<close>-to-last-\<open>]\<close> substring is parsed when the text holds no \<open>{\<close> before a
  later \<open>}\<close>.
\<close>

theorem parseJson_array_only_without_object:
  "(trim out = a @ 0x7B # m @ 0x7D # b \<and> 0x7B \<notin> set a \<and> 0x7D \<notin> set b
      \<and> \<not> (startsWith (trim out) (js ''['') \<and> endsWith (trim out) (js '']''))
     \<longrightarrow> parseJsonFromCommandOutput parse out = jsonParse parse (0x7B # m @ [0x7D]))
   \<and> (trim out = a' @ 0x5B # m' @ 0x5D # b' \<and> 0x5B \<notin> set a' \<and> 0x5D \<notin> set b'
      \<and> \<not> (\<exists>u v w. trim out = u @ 0x7B # v @ 0x7D # w)
     \<longrightarrow> parseJsonFromCommandOutput parse out = jsonParse parse (0x5B # m' @ [0x5D]))"
  using parse_object_substring [where out = out and a = a and m = m and b = b and parse = parse]
        parse_array_substring [where out = out and a = a' and m = m' and b = b' and parse = parse]
  by blast

theorem parseJson_array_only_without_object_witness:
  "parseJsonFromCommandOutput JSON_parse (js ''x {bad} [1] y'') = Inl SyntaxError
   \<and> parseJsonFromCommandOutput JSON_parse (js ''x [1] y'') = Inr (JArray [JNumber (js ''1'')])"
proof -
  have t1: "trim (js ''x {bad} [1] y'') = js ''x '' @ 0x7B # js ''bad'' @ 0x7D # js '' [1] y''"
    by code_simp
  have a1: "0x7B \<notin> set (js ''x '')" and b1: "0x7D \<notin> set (js '' [1] y'')"
    by (simp_all add: js_def)
  have f1: "\<not> (startsWith (trim (js ''x {bad} [1] y'')) (js ''['')
               \<and> endsWith (trim (js ''x {bad} [1] y'')) (js '']''))"
    by code_simp
  have t2: "trim (js ''x [1] y'') = js ''x '' @ 0x5B # js ''1'' @ 0x5D # js '' y''"
    by code_simp
  have a2: "0x5B \<notin> set (js ''x '')" and b2: "0x5D \<notin> set (js '' y'')"
    by (simp_all add: js_def)
  have o2: "\<not> (\<exists>u v w. trim (js ''x [1] y'') = u @ 0x7B # v @ 0x7D # w)"
  proof
    assume "\<exists>u v w. trim (js ''x [1] y'') = u @ 0x7B # v @ 0x7D # w"
    then obtain u v w where "trim (js ''x [1] y'') = u @ 0x7B # v @ 0x7D # w" by blast
    then have "0x7B \<in> set (trim (js ''x [1] y''))" by simp
    moreover have "0x7B \<notin> set (trim (js ''x [1] y''))" by code_simp
    ultimately show False by simp
  qed
  have p1: "jsonParse JSON_parse (0x7B # js ''bad'' @ [0x7D]) = Inl SyntaxError"
    by code_simp
  have p2: "jsonParse JSON_parse (0x5B # js ''1'' @ [0x5D]) = Inr (JArray [JNumber (js ''1'')])"
    by code_simp
  show ?thesis
    using parseJson_array_only_without_object
            [of "js ''x {bad} [1] y''" "js ''x ''" "js ''bad''" "js '' [1] y''" JSON_parse
                "[]" "[]" "[]"]
          parseJson_array_only_without_object
            [of "js ''x [1] y''" "[]" "[]" "[]" JSON_parse "js ''x ''" "js ''1''" "js '' y''"]
          t1 a1 b1 f1 t2 a2 b2 o2 p1 p2
    by simp
qed

section \<open>Empty output\<close>

text \<open>
  C8. For every input that is empty or consists only of white space,
  \<open>parseJsonFromCommandOutput\<close> throws the empty-output error, whatever
  \<open>JSON.parse\<close> would do, and returns no value; no other input throws that error.
\<close>

theorem parseJson_empty_output:
  "parseJsonFromCommandOutput parse out = Inl EmptyOutput \<longleftrightarrow> list_all isWhiteSpace out"
proof -
  have "trim out = [] \<longleftrightarrow> list_all isWhiteSpace out"
    by (simp add: trim_Nil_iff list_all_iff)
  moreover have "parseJsonFromCommandOutput parse out = Inl EmptyOutput \<longleftrightarrow> trim out = []"
    unfolding parseJsonFromCommandOutput_def Let_def jsonParse_def
    by (auto split: option.splits)
  ultimately show ?thesis by simp
qed

theorem parseJson_empty_output_witness:
  "list_all isWhiteSpace (js ''  '' @ [0x0A, 0x09])
   \<and> parseJsonFromCommandOutput JSON_parse (js ''  '' @ [0x0A, 0x09]) = Inl EmptyOutput
   \<and> parseJsonFromCommandOutput JSON_parse [] = Inl EmptyOutput"
proof -
  have h: "list_all isWhiteSpace (js ''  '' @ [0x0A, 0x09])"
    by (simp add: js_def isWhiteSpace_def)
  show ?thesis
    using h parseJson_empty_output [of JSON_parse "js ''  '' @ [0x0A, 0x09]"]
      parseJson_empty_output [of JSON_parse "[]"]
    by simp
qed

section \<open>Workflow identifiers\<close>

lemma canonicalize_eqD:
  "canonicalize c = v \<Longrightarrow> c = v \<or> (0x61 \<le> v + 0x20 \<and> v + 0x20 \<le> 0x7A \<and> c = v + 0x20)"
  unfolding canonicalize_def by (auto split: if_splits)

lemma canonicalize_members:
  "map canonicalize (js ''abcdef0123456789-'')
     = [0x41, 0x42, 0x43, 0x44, 0x45, 0x46,
        0x30, 0x31, 0x32, 0x33, 0x34, 0x35, 0x36, 0x37, 0x38, 0x39, 0x2D]"
  by (simp add: js_def canonicalize_def)


lemma canonical_hex_unit:
  "canonicalize c = 0x41 \<Longrightarrow> isHexOrHyphen c"
  "canonicalize c = 0x42 \<Longrightarrow> isHexOrHyphen c"
  "canonicalize c = 0x43 \<Longrightarrow> isHexOrHyphen c"
  "canonicalize c = 0x44 \<Longrightarrow> isHexOrHyphen c"
  "canonicalize c = 0x45 \<Longrightarrow> isHexOrHyphen c"
  "canonicalize c = 0x46 \<Longrightarrow> isHexOrHyphen c"
  "canonicalize c = 0x30 \<Longrightarrow> isHexOrHyphen c"
  "canonicalize c = 0x31 \<Longrightarrow> isHexOrHyphen c"
  "canonicalize c = 0x32 \<Longrightarrow> isHexOrHyphen c"
  "canonicalize c = 0x33 \<Longrightarrow> isHexOrHyphen c"
  "canonicalize c = 0x34 \<Longrightarrow> isHexOrHyphen c"
  "canonicalize c = 0x35 \<Longrightarrow> isHexOrHyphen c"
  "canonicalize c = 0x36 \<Longrightarrow> isHexOrHyphen c"
  "canonicalize c = 0x37 \<Longrightarrow> isHexOrHyphen c"
  "canonicalize c = 0x38 \<Longrightarrow> isHexOrHyphen c"
  "canonicalize c = 0x39 \<Longrightarrow> isHexOrHyphen c"
  "canonicalize c = 0x2D \<Longrightarrow> isHexOrHyphen c"
  by ((drule canonicalize_eqD, auto simp: isHexOrHyphen_def)[1])+

lemma ignoreCase_iff: "ignoreCase members c \<longleftrightarrow> canonicalize c \<in> set (map canonicalize members)"
  by (induction members) (auto simp: ignoreCase_def)

lemma ignoreCase_hexD:
  assumes "ignoreCase (js ''abcdef0123456789-'') c"
  shows "isHexOrHyphen c"
proof -
  from assms have "canonicalize c \<in> set (map canonicalize (js ''abcdef0123456789-''))"
    by (simp only: ignoreCase_iff)
  then have "canonicalize c \<in> {0x41, 0x42, 0x43, 0x44, 0x45, 0x46,
        0x30, 0x31, 0x32, 0x33, 0x34, 0x35, 0x36, 0x37, 0x38, 0x39, 0x2D}"
    by (simp only: canonicalize_members set_simps)
  then show ?thesis
    unfolding insert_iff empty_iff by (elim disjE) (erule canonical_hex_unit | erule FalseE)+
qed

text \<open>A capture is made of code units of the class of its group, at least one.\<close>

lemma matchSeq_capture_class:
  "(case cap of None \<Rightarrow> True | Some w' \<Rightarrow> w' \<noteq> [] \<and> list_all R w')
     \<Longrightarrow> capturesWithin R rs
     \<Longrightarrow> matchSeq rs s cap = Some (Some w) \<Longrightarrow> w \<noteq> [] \<and> list_all R w"
  and "acc \<noteq> [] \<and> list_all R acc
     \<Longrightarrow> \<forall>c. P c \<longrightarrow> R c
     \<Longrightarrow> capturesWithin R rs
     \<Longrightarrow> matchCapture P acc rs s = Some (Some w) \<Longrightarrow> w \<noteq> [] \<and> list_all R w"
proof (induction rs s cap and P acc rs s arbitrary: w and w rule: matchSeq_matchCapture.induct)
  case (1 s cap)
  then show ?case by simp
next
  case (2 P rs s cap)
  have c: "capturesWithin R rs" using "2.prems"(2) by simp
  show ?case
  proof (cases s)
    case Nil
    with "2.prems"(3) show ?thesis by simp
  next
    case (Cons x xs)
    show ?thesis
    proof (cases "P x")
      case True
      with "2.prems"(3) Cons have "matchSeq rs xs cap = Some (Some w)" by simp
      then show ?thesis using "2.IH" [OF Cons True "2.prems"(1) c] by simp
    next
      case False
      with "2.prems"(3) Cons show ?thesis by simp
    qed
  qed
next
  case (3 P rs s cap)
  have c: "capturesWithin R rs" using "3.prems"(2) by simp
  show ?case
  proof (cases s)
    case Nil
    with "3.prems"(3) have "matchSeq rs s cap = Some (Some w)" by simp
    then show ?thesis using "3.IH"(1) [OF Nil "3.prems"(1) c] by simp
  next
    case (Cons x xs)
    show ?thesis
    proof (cases "P x")
      case True
      show ?thesis
      proof (cases "matchSeq (Many P # rs) xs cap")
        case None
        with "3.prems"(3) Cons True have "matchSeq rs s cap = Some (Some w)" by simp
        then show ?thesis using "3.IH"(3) [OF Cons True None "3.prems"(1) c] by simp
      next
        case (Some r)
        with "3.prems"(3) Cons True have "matchSeq (Many P # rs) xs cap = Some (Some w)" by simp
        then show ?thesis using "3.IH"(2) [OF Cons True "3.prems"(1) "3.prems"(2)] by simp
      qed
    next
      case False
      with "3.prems"(3) Cons have "matchSeq rs s cap = Some (Some w)" by simp
      then show ?thesis using "3.IH"(4) [OF Cons False "3.prems"(1) c] by simp
    qed
  qed
next
  case (4 P rs s cap)
  have c: "capturesWithin R rs" and p: "\<forall>c. P c \<longrightarrow> R c"
    using "4.prems"(2) by simp_all
  show ?case
  proof (cases s)
    case Nil
    with "4.prems"(3) show ?thesis by simp
  next
    case (Cons x xs)
    show ?thesis
    proof (cases "P x")
      case True
      with "4.prems"(3) Cons have m: "matchCapture P [x] rs xs = Some (Some w)" by simp
      have "[x] \<noteq> [] \<and> list_all R [x]" using p True by simp
      then show ?thesis using "4.IH" [OF Cons True _ p c m] by simp
    next
      case False
      with "4.prems"(3) Cons show ?thesis by simp
    qed
  qed
next
  case (5 P acc rs s)
  have g: "case Some acc of None \<Rightarrow> True | Some w' \<Rightarrow> w' \<noteq> [] \<and> list_all R w'"
    using "5.prems"(1) by simp
  show ?case
  proof (cases s)
    case Nil
    with "5.prems"(4) have "matchSeq rs s (Some acc) = Some (Some w)" by simp
    then show ?thesis using "5.IH"(1) [OF Nil g "5.prems"(3)] by simp
  next
    case (Cons x xs)
    show ?thesis
    proof (cases "P x")
      case True
      have a: "acc @ [x] \<noteq> [] \<and> list_all R (acc @ [x])"
        using "5.prems"(1,2) True by simp
      show ?thesis
      proof (cases "matchCapture P (acc @ [x]) rs xs")
        case None
        with "5.prems"(4) Cons True have "matchSeq rs s (Some acc) = Some (Some w)" by simp
        then show ?thesis using "5.IH"(3) [OF Cons True None g "5.prems"(3)] by simp
      next
        case (Some r)
        with "5.prems"(4) Cons True have "matchCapture P (acc @ [x]) rs xs = Some (Some w)"
          by simp
        then show ?thesis using "5.IH"(2) [OF Cons True a "5.prems"(2) "5.prems"(3)] by simp
      qed
    next
      case False
      with "5.prems"(4) Cons have "matchSeq rs s (Some acc) = Some (Some w)" by simp
      then show ?thesis using "5.IH"(4) [OF Cons False g "5.prems"(3)] by simp
    qed
  qed
qed

lemma regexMatch_capture_class:
  "capturesWithin R re \<Longrightarrow> regexMatch re s = Some (Some w) \<Longrightarrow> w \<noteq> [] \<and> list_all R w"
proof (induction s)
  case Nil
  then show ?case using matchSeq_capture_class(1) [where cap = None and rs = re and s = "[]"] by simp
next
  case (Cons c cs)
  show ?case
  proof (cases "matchSeq re (c # cs) None")
    case None
    with Cons show ?thesis by simp
  next
    case (Some r)
    with Cons.prems have "matchSeq re (c # cs) None = Some (Some w)" by simp
    then show ?thesis
      using matchSeq_capture_class(1) [where cap = None and rs = re and s = "c # cs"] Cons.prems(1)
      by simp
  qed
qed

lemma capturesWithin_units: "capturesWithin R (map Unit ps @ rs) = capturesWithin R rs"
  by (induction ps) simp_all

lemma workflowIdRegex_captures: "capturesWithin isHexOrHyphen workflowIdRegex"
proof -
  have "literal (js ''workflow_id'') = map Unit (map (\<lambda>x. ignoreCase [x]) (js ''workflow_id''))"
    by (simp add: literal_def)
  then show ?thesis
    unfolding workflowIdRegex_def
    by (simp only: capturesWithin_units capturesWithin.simps) (simp add: ignoreCase_hexD)
qed

text \<open>
  C10. Every non-null result of \<open>extractWorkflowId\<close> is a non-empty string of
  hexadecimal digits, of either case, and hyphens.
\<close>

theorem extractWorkflowId_hex_and_hyphens:
  "extractWorkflowId fileContent = Some w \<Longrightarrow> w \<noteq> [] \<and> list_all isHexOrHyphen w"
proof -
  assume a: "extractWorkflowId fileContent = Some w"
  have "regexMatch workflowIdRegex fileContent = Some (Some w)"
  proof (cases "regexMatch workflowIdRegex fileContent")
    case None
    with a show ?thesis by (simp add: extractWorkflowId_def)
  next
    case (Some g)
    with a show ?thesis
      by (cases g) (simp_all add: extractWorkflowId_def split: if_splits)
  qed
  then show ?thesis
    using regexMatch_capture_class [OF workflowIdRegex_captures] by blast
qed

theorem extractWorkflowId_hex_and_hyphens_witness:
  \<open>extractWorkflowId (js ''workflow_id="1234abcd-5678-90EF-aaaa-bbbbccccdddd"'')
     = Some (js ''1234abcd-5678-90EF-aaaa-bbbbccccdddd'')
   \<and> js ''1234abcd-5678-90EF-aaaa-bbbbccccdddd'' \<noteq> []
   \<and> list_all isHexOrHyphen (js ''1234abcd-5678-90EF-aaaa-bbbbccccdddd'')\<close>
proof -
  have h: \<open>extractWorkflowId (js ''workflow_id="1234abcd-5678-90EF-aaaa-bbbbccccdddd"'')
             = Some (js ''1234abcd-5678-90EF-aaaa-bbbbccccdddd'')\<close>
    by code_simp
  show ?thesis
    using h extractWorkflowId_hex_and_hyphens [OF h] by simp
qed

section \<open>Build before push\<close>

lemma executed_append: "executed (a @ b) = executed a @ executed b"
  by (induction a rule: executed.induct) simp_all

lemma executePy2RocketCommand_executed:
  "executed (snd (executePy2RocketCommand h command filePath workingDir trace))
     = executed trace @ (if workspaceFolder h = None then [] else [command])"
  by (simp add: executePy2RocketCommand_def Let_def executed_append
      split: option.splits)

lemma executePy2RocketCommand_resolves:
  "fst (executePy2RocketCommand h command filePath (Some (pathDirname h filePath)) trace) = Inr u
     \<longleftrightarrow> workspaceFolder h \<noteq> None
         \<and> execError (childExec h (executed trace) command (pathDirname h filePath)) = None"
  by (simp add: executePy2RocketCommand_def Let_def executed_append
      split: option.splits)

lemma build_push_distinct: "pushCommandLine h filePath \<noteq> buildCommandLine h filePath"
  by (simp add: pushCommandLine_def buildCommandLine_def js_def)

text \<open>
  C7. In \<open>buildAndPushCommand\<close> on an active Python file, when the build
  subprocess fails (its error is set: a non-zero exit or a spawn error) or cannot
  be started for want of a workspace folder, the commands executed are the build
  command at most: the push command is not executed.
\<close>

theorem push_not_executed_after_failed_build:
  assumes "activeEditorPath h = Some filePath" and "endsWith filePath (js ''.py'')"
      and "workspaceFolder h = None
           \<or> execError (childExec h (executed trace) (buildCommandLine h filePath)
                 (pathDirname h filePath)) \<noteq> None"
  shows "executed (buildAndPushCommand h trace)
           = executed trace
               @ (if workspaceFolder h = None then [] else [buildCommandLine h filePath])
         \<and> pushCommandLine h filePath
             \<notin> set (drop (length (executed trace)) (executed (buildAndPushCommand h trace)))"
proof -
  let ?t1 = "trace @ [SaveDocument, AppendLine (js ''Paso 1/2: Building...'')]"
  let ?run = "executePy2RocketCommand h (buildCommandLine h filePath) filePath
                (Some (pathDirname h filePath)) ?t1"
  have g: "getActiveFilePath h trace = (Some filePath, trace)"
    using assms(1,2) by (simp add: getActiveFilePath_def)
  have e1: "executed ?t1 = executed trace" by (simp add: executed_append)
  have "fst ?run \<noteq> Inr ()"
    using assms(3) executePy2RocketCommand_resolves [of h "buildCommandLine h filePath" filePath ?t1 "()"]
    by (auto simp: e1)
  then obtain err t2 where r: "?run = (Inl err, t2)"
    by (cases ?run; cases "fst ?run") auto
  have t2: "executed t2
           = executed trace
               @ (if workspaceFolder h = None then [] else [buildCommandLine h filePath])"
    using executePy2RocketCommand_executed
            [of h "buildCommandLine h filePath" filePath "Some (pathDirname h filePath)" ?t1]
    by (simp only: r snd_conv e1)
  have "buildAndPushCommand h trace
          = t2 @ [ConsoleError (js ''Error en build and push:'') err]"
    unfolding buildAndPushCommand_def g Let_def by (simp add: r)
  then have x: "executed (buildAndPushCommand h trace)
           = executed trace
               @ (if workspaceFolder h = None then [] else [buildCommandLine h filePath])"
    by (simp add: executed_append t2)
  then show ?thesis using build_push_distinct [of h filePath] by simp
qed

theorem push_not_executed_after_failed_build_witness:
  "executed (buildAndPushCommand
       (posixHost (Some (js ''/ws/src/report.py'')) (Some (js ''/ws'')) failingRun) [])
     = [js ''python -m py2rocket build '' @ [0x22] @ js ''report.py'' @ [0x22]]
   \<and> pushCommandLine (posixHost (Some (js ''/ws/src/report.py'')) (Some (js ''/ws'')) failingRun)
         (js ''/ws/src/report.py'')
       = js ''python -m py2rocket push '' @ [0x22] @ js ''report.json'' @ [0x22]
   \<and> pushCommandLine (posixHost (Some (js ''/ws/src/report.py'')) (Some (js ''/ws'')) failingRun)
         (js ''/ws/src/report.py'')
       \<notin> set (executed (buildAndPushCommand
               (posixHost (Some (js ''/ws/src/report.py'')) (Some (js ''/ws'')) failingRun) []))"
proof -
  let ?h = "posixHost (Some (js ''/ws/src/report.py'')) (Some (js ''/ws'')) failingRun"
  have h1: "activeEditorPath ?h = Some (js ''/ws/src/report.py'')"
    by (simp add: posixHost_def)
  have h2: "endsWith (js ''/ws/src/report.py'') (js ''.py'')"
    by code_simp
  have h3: "workspaceFolder ?h = None
           \<or> execError (childExec ?h (executed []) (buildCommandLine ?h (js ''/ws/src/report.py''))
                 (pathDirname ?h (js ''/ws/src/report.py''))) \<noteq> None"
    by (simp add: posixHost_def failingRun_def)
  have w: "workspaceFolder ?h \<noteq> None" by (simp add: posixHost_def)
  have b: "buildCommandLine ?h (js ''/ws/src/report.py'')
             = js ''python -m py2rocket build '' @ [0x22] @ js ''report.py'' @ [0x22]"
    by code_simp
  have p: "pushCommandLine ?h (js ''/ws/src/report.py'')
             = js ''python -m py2rocket push '' @ [0x22] @ js ''report.json'' @ [0x22]"
    by code_simp
  show ?thesis
    using push_not_executed_after_failed_build [OF h1 h2 h3] w b p by (simp add: js_def)
qed

text \<open>When the build succeeds, the push command is executed after it.\<close>

lemma push_executed_after_successful_build:
  assumes "activeEditorPath h = Some filePath" and "endsWith filePath (js ''.py'')"
      and "workspaceFolder h \<noteq> None"
      and "execError (childExec h (executed trace) (buildCommandLine h filePath)
             (pathDirname h filePath)) = None"
  shows "executed (buildAndPushCommand h trace)
           = executed trace @ [buildCommandLine h filePath, pushCommandLine h filePath]"
proof -
  let ?t1 = "trace @ [SaveDocument, AppendLine (js ''Paso 1/2: Building...'')]"
  let ?run = "executePy2RocketCommand h (buildCommandLine h filePath) filePath
                (Some (pathDirname h filePath)) ?t1"
  have g: "getActiveFilePath h trace = (Some filePath, trace)"
    using assms(1,2) by (simp add: getActiveFilePath_def)
  have e1: "executed ?t1 = executed trace" by (simp add: executed_append)
  have "fst ?run = Inr ()"
    using assms(3,4) executePy2RocketCommand_resolves [of h "buildCommandLine h filePath" filePath ?t1 "()"]
    by (simp add: e1)
  then obtain t2 where r: "?run = (Inr (), t2)"
    by (cases ?run) auto
  have t2: "executed t2 = executed trace @ [buildCommandLine h filePath]"
    using executePy2RocketCommand_executed
            [of h "buildCommandLine h filePath" filePath "Some (pathDirname h filePath)" ?t1]
          assms(3)
    by (simp add: r e1)
  let ?t3 = "t2 @ [AppendLine (0x0A # js ''Paso 2/2: Pushing to Rocket...'')]"
  let ?run2 = "executePy2RocketCommand h (pushCommandLine h filePath) filePath
                (Some (pathDirname h filePath)) ?t3"
  obtain res t4 where r2: "?run2 = (res, t4)" by (cases ?run2) auto
  have t4: "executed t4 = executed ?t3 @ [pushCommandLine h filePath]"
    using executePy2RocketCommand_executed
            [of h "pushCommandLine h filePath" filePath "Some (pathDirname h filePath)" ?t3]
          assms(3)
    by (simp add: r2)
  have "executed (buildAndPushCommand h trace) = executed t4"
    unfolding buildAndPushCommand_def g Let_def
    by (cases res) (simp_all add: r r2 executed_append)
  then show ?thesis by (simp add: t4 t2 executed_append)
qed

end
